theory Spec2Isabelle
  imports Main "HOL-Library.Word"
begin

text \<open>
  A model of the editor extension for the Noir language: the debug configuration
  provider with its pre-flight check of \<^verbatim>\<open>nargo dap\<close> and the sanitizer of the
  output of that check (the debugger module), and the test tree and test runner of
  the language client (the client module). The model comes first, the properties
  after it.
\<close>

section \<open>JavaScript values and strings\<close>

text \<open>
  A JavaScript string is a sequence of UTF-16 code units. String literals of the
  source are embedded with \<open>str\<close>; the characters of the regular expressions with
  \<open>cu\<close>.
\<close>

type_synonym code_unit = "16 word"
type_synonym jsstring = "code_unit list"

definition cu :: "char \<Rightarrow> code_unit" where
  "cu c = of_nat (of_char c)"

definition str :: "string \<Rightarrow> jsstring" where
  "str s = map cu s"

section \<open>Regular expressions with backtracking\<close>

text \<open>
  The two patterns of \<open>preflightCheckPrinter\<close> are written as terms of a small
  regular-expression syntax: literals, character classes \<open>[...]\<close>, negated
  classes \<open>[^...]\<close>, sequence, alternation \<open>|\<close> and the greedy star.
\<close>

datatype class_item = Chr code_unit | Rng code_unit code_unit

datatype regex =
    Lit code_unit
  | Cls "class_item list"
  | NCls "class_item list"
  | Seq regex regex
  | Alt regex regex
  | Star regex

fun in_item :: "code_unit \<Rightarrow> class_item \<Rightarrow> bool" where
  "in_item c (Chr d) = (c = d)"
| "in_item c (Rng lo hi) = (lo \<le> c \<and> c \<le> hi)"

definition in_class :: "class_item list \<Rightarrow> code_unit \<Rightarrow> bool" where
  "in_class items c = list_ex (in_item c) items"

text \<open>
  \<open>rmatch r s\<close> lists, in the order a backtracking matcher tries them, the
  remainders of \<open>s\<close> after each way in which \<open>r\<close> matches a prefix of \<open>s\<close>: the
  left alternative before the right one, a longer repetition before a shorter one.
  An iteration of a star that consumes nothing is rejected, as in ECMAScript. Each
  accepted iteration consumes a code unit, so \<open>length s\<close> iterations are enough.
\<close>

fun star_iter :: "(jsstring \<Rightarrow> jsstring list) \<Rightarrow> nat \<Rightarrow> jsstring \<Rightarrow> jsstring list" where
  "star_iter m 0 s = [s]"
| "star_iter m (Suc n) s =
     concat (map (\<lambda>t. if length t < length s then star_iter m n t else []) (m s)) @ [s]"

primrec rmatch :: "regex \<Rightarrow> jsstring \<Rightarrow> jsstring list" where
  "rmatch (Lit c) s = (case s of [] \<Rightarrow> [] | d # t \<Rightarrow> if d = c then [t] else [])"
| "rmatch (Cls items) s = (case s of [] \<Rightarrow> [] | d # t \<Rightarrow> if in_class items d then [t] else [])"
| "rmatch (NCls items) s = (case s of [] \<Rightarrow> [] | d # t \<Rightarrow> if in_class items d then [] else [t])"
| "rmatch (Seq a b) s = concat (map (rmatch b) (rmatch a s))"
| "rmatch (Alt a b) s = rmatch a s @ rmatch b s"
| "rmatch (Star a) s = star_iter (rmatch a) (length s) s"

text \<open>
  \<open>replace_g r s\<close> is \<open>s.replace(/r/g, '')\<close>: scanning from the left, the first
  match found at a position is deleted and the scan goes on behind it; where the
  pattern does not match (or matches the empty string) the code unit is kept and
  the scan moves one position on.
\<close>

function replace_g :: "regex \<Rightarrow> jsstring \<Rightarrow> jsstring" where
  "replace_g r [] = []"
| "replace_g r (c # cs) =
     (case rmatch r (c # cs) of
        [] \<Rightarrow> c # replace_g r cs
      | t # _ \<Rightarrow> if length t < Suc (length cs) then replace_g r t else c # replace_g r cs)"
  by pat_completeness auto
termination
  by (relation "measure (\<lambda>(r, s). length s)") auto

section \<open>The pre-flight output sanitizer\<close>

text \<open>The pattern \<^verbatim>\<open>\x1b(?:[@-Z\\-_]|\[[0-?]*[ -/]*[@-~])\<close>.\<close>

definition ansi_escape :: regex where
  "ansi_escape =
     Seq (Lit 0x1B)
       (Alt (Cls [Rng (cu CHR ''@'') (cu CHR ''Z''), Rng (cu CHR 0x5C) (cu CHR ''_'')])
            (Seq (Lit (cu CHR ''[''))
              (Seq (Star (Cls [Rng (cu CHR ''0'') (cu CHR ''?'')]))
                (Seq (Star (Cls [Rng (cu CHR '' '') (cu CHR ''/'')]))
                     (Cls [Rng (cu CHR ''@'') (cu CHR ''~'')])))))"

text \<open>The pattern \<^verbatim>\<open>[^ -~\n\t]\<close>.\<close>

definition non_printable :: regex where
  "non_printable = NCls [Rng (cu CHR '' '') (cu CHR ''~''), Chr 0x0A, Chr 0x09]"

definition formattedOutput :: "jsstring \<Rightarrow> jsstring" where
  "formattedOutput s = replace_g non_printable (replace_g ansi_escape s)"

text \<open>
  \<open>preflightCheckPrinter\<close> (the same in both versions of the debugger module):
  the buffer is decoded by \<open>Buffer.toString\<close>, a function of the Node runtime that
  is taken as the parameter \<open>toString\<close>; the output channel is the list of the
  lines appended to it.
\<close>

type_synonym buffer = "8 word list"

definition preflightCheckPrinter ::
  "(buffer \<Rightarrow> jsstring) \<Rightarrow> buffer \<Rightarrow> jsstring list \<Rightarrow> jsstring list" where
  "preflightCheckPrinter toString buf output = output @ [formattedOutput (toString buf)]"

text \<open>The characters tab, newline and space through tilde.\<close>

definition printable :: "code_unit \<Rightarrow> bool" where
  "printable c = (c = 0x09 \<or> c = 0x0A \<or> (0x20 \<le> c \<and> c \<le> 0x7E))"

section \<open>Values of the launch configuration\<close>

text \<open>
  A \<open>DebugConfiguration\<close> is an object whose attributes come from
  \<^verbatim>\<open>launch.json\<close>: a missing attribute reads as \<open>undefined\<close>, a present one is a
  JSON scalar. Numbers are integers here.
\<close>

datatype jsval = JUndefined | JNull | JBool bool | JNum int | JStr jsstring

fun truthy :: "jsval \<Rightarrow> bool" where
  "truthy JUndefined = False"
| "truthy JNull = False"
| "truthy (JBool b) = b"
| "truthy (JNum n) = (n \<noteq> 0)"
| "truthy (JStr s) = (s \<noteq> [])"

text \<open>The operators \<^verbatim>\<open>a || b\<close> and \<^verbatim>\<open>a && b\<close>.\<close>

definition js_or :: "jsval \<Rightarrow> jsval \<Rightarrow> jsval" where
  "js_or a b = (if truthy a then a else b)"

definition js_and :: "jsval \<Rightarrow> jsval \<Rightarrow> jsval" where
  "js_and a b = (if truthy a then b else a)"

text \<open>The decimal form of a number and the string form of a value in a template literal.\<close>

function decimal :: "nat \<Rightarrow> jsstring" where
  "decimal n = (if n < 10 then [cu CHR ''0'' + of_nat n]
                else decimal (n div 10) @ [cu CHR ''0'' + of_nat (n mod 10)])"
  by pat_completeness auto
termination
  by (relation "measure id") auto

declare decimal.simps [simp del]

definition number_toString :: "int \<Rightarrow> jsstring" where
  "number_toString i = (if i < 0 then str ''-'' @ decimal (nat (- i)) else decimal (nat i))"

fun toStr :: "jsval \<Rightarrow> jsstring" where
  "toStr JUndefined = str ''undefined''"
| "toStr JNull = str ''null''"
| "toStr (JBool b) = (if b then str ''true'' else str ''false'')"
| "toStr (JNum n) = number_toString n"
| "toStr (JStr s) = s"

record DebugConfiguration =
  type :: jsval
  name :: jsval
  request :: jsval
  program :: jsval
  projectFolder :: jsval
  package :: jsval
  proverName :: jsval
  generateAcir :: jsval
  skipInstrumentation :: jsval

section \<open>The editor host and the pre-flight subprocess\<close>

text \<open>
  The exit code that Node passes to the \<open>exit\<close> listener is a number, or \<open>null\<close>
  when the child was ended by a signal.
\<close>

datatype exit_code = Code int | Null

text \<open>
  What the spawned child does: the chunks it delivers to the \<open>data\<close> listeners
  before it exits, and its exit code (\<open>None\<close> when it never exits).
\<close>

record child_process =
  data_events :: "buffer list"
  exit_event :: "exit_code option"

text \<open>
  What the function reads from its surroundings: the language and the path of the
  document in the active editor, the setting \<^verbatim>\<open>noir.nargoPath\<close>, and what the
  imported functions do. The value that \<open>findNargo()\<close> returns and the function
  \<open>findNearestPackageFrom\<close> (of the modules \<^verbatim>\<open>./find-nargo\<close> and
  \<^verbatim>\<open>./find-nearest-package\<close>) are taken as given, and so are \<open>spawn\<close> and
  \<open>Buffer.toString\<close> of the Node runtime.
\<close>

record editor_host =
  languageId :: "jsstring option"
  fsPath :: jsstring
  nargoPath_setting :: jsval
  findNargo :: jsval
  findNearestPackageFrom :: "jsstring \<Rightarrow> jsval"
  spawn :: "jsval \<Rightarrow> jsval list \<Rightarrow> child_process"
  buffer_toString :: "buffer \<Rightarrow> jsstring"

text \<open>
  What the function does to its surroundings: the lines of the output channel,
  whether the channel was brought to the front, the information messages shown, and
  the commands spawned.
\<close>

record effects =
  outputChannel :: "jsstring list"
  channel_shown :: bool
  messages :: "jsstring list"
  spawned :: "(jsval \<times> jsval list) list"

text \<open>How an \<open>async\<close> function ends: with a value, with an error, or never.\<close>

datatype 'a settled = Returns 'a | Throws jsstring | Pending

section \<open>resolveDebugConfiguration\<close>

text \<open>The object \<open>resolvedConfig\<close> of \<open>resolveDebugConfiguration\<close>.\<close>

definition resolvedConfig :: "editor_host \<Rightarrow> DebugConfiguration \<Rightarrow> DebugConfiguration" where
  "resolvedConfig h config =
     (let currentFilePath = fsPath h;
          projectFolder' =
            (if truthy (js_and (projectFolder config) (JBool (projectFolder config \<noteq> JStr [])))
             then projectFolder config
             else findNearestPackageFrom h currentFilePath)
      in \<lparr> type = js_or (type config) (JStr (str ''noir'')),
           name = js_or (name config) (JStr (str ''Noir binary package'')),
           request = JStr (str ''launch''),
           program = JStr currentFilePath,
           projectFolder = projectFolder',
           package = js_or (package config) (JStr []),
           proverName = js_or (proverName config) (JStr (str ''Prover'')),
           generateAcir = js_or (generateAcir config) (JBool False),
           skipInstrumentation = js_or (skipInstrumentation config) (JBool False) \<rparr>)"

text \<open>The array \<open>preflightArgs\<close>, after the three conditional pushes.\<close>

definition preflightArgs :: "DebugConfiguration \<Rightarrow> DebugConfiguration \<Rightarrow> jsval list" where
  "preflightArgs config rc =
     [JStr (str ''dap''),
      JStr (str ''--preflight-check''),
      JStr (str ''--preflight-project-folder''),
      projectFolder rc,
      JStr (str ''--preflight-prover-name''),
      proverName rc]
     @ (if package rc \<noteq> JStr [] then [JStr (str ''--preflight-package''), package config] else [])
     @ (if truthy (generateAcir rc) then [JStr (str ''--preflight-generate-acir'')] else [])
     @ (if truthy (skipInstrumentation rc)
        then [JStr (str ''--preflight-skip-instrumentation'')] else [])"

definition exit_code_toString :: "exit_code \<Rightarrow> jsstring" where
  "exit_code_toString code = (case code of Code n \<Rightarrow> number_toString n | Null \<Rightarrow> str ''null'')"

text \<open>
  The part that both versions share, from the spawned child to the end: every
  \<open>data\<close> chunk goes through \<open>preflightCheckPrinter\<close>; the \<open>exit\<close> listener logs
  a code with \<^verbatim>\<open>code !== 0\<close> and resolves the monitor with \<^verbatim>\<open>code == 0\<close>; the
  function then throws or returns \<open>result\<close>.
\<close>

definition awaitPreflight ::
  "editor_host \<Rightarrow> child_process \<Rightarrow> DebugConfiguration \<Rightarrow> effects
     \<Rightarrow> DebugConfiguration option settled \<times> effects" where
  "awaitPreflight h preflightCheck result fx =
     (let printed = foldl (\<lambda>out buf. preflightCheckPrinter (buffer_toString h) buf out)
                      (outputChannel fx) (data_events preflightCheck)
      in case exit_event preflightCheck of
           None \<Rightarrow> (Pending, fx\<lparr>outputChannel := printed\<rparr>)
         | Some code \<Rightarrow>
             (let logged = (if code \<noteq> Code 0
                            then printed @ [str ''Exited with code '' @ exit_code_toString code]
                            else printed)
              in if \<not> (code = Code 0)
                 then (Throws (str ''Error launching debugger. Please inspect the Output pane for more details.''),
                       fx\<lparr>outputChannel := logged, channel_shown := True\<rparr>)
                 else (Returns (Some result),
                       fx\<lparr>outputChannel := logged @ [str ''Starting debugger session...'']\<rparr>)))"

text \<open>The lines written after \<open>outputChannel.clear()\<close>.\<close>

definition banner :: "jsval \<Rightarrow> jsstring list" where
  "banner nargoPath =
     [str ''Using nargo at '' @ toStr nargoPath, str ''Compiling Noir project...'', []]"

text \<open>
  \<open>resolveDebugConfiguration\<close>, in the version of the debugger module that merges
  the input configuration into \<open>resolvedConfig\<close>.
\<close>

definition resolveDebugConfiguration ::
  "editor_host \<Rightarrow> DebugConfiguration \<Rightarrow> effects
     \<Rightarrow> DebugConfiguration option settled \<times> effects" where
  "resolveDebugConfiguration h config fx =
     (if languageId h \<noteq> Some (str ''noir'')
      then (Returns None, fx\<lparr>messages := messages fx @ [str ''Select a Noir file to debug'']\<rparr>)
      else
        (let nargoPath = js_or (nargoPath_setting h) (findNargo h);
             rc = resolvedConfig h config;
             args = preflightArgs config rc;
             preflightCheck = spawn h nargoPath args
         in awaitPreflight h preflightCheck rc
              (fx\<lparr>outputChannel := banner nargoPath,
                  spawned := spawned fx @ [(nargoPath, args)]\<rparr>)))"

text \<open>
  \<open>resolveDebugConfiguration\<close>, in the version of \<^verbatim>\<open>src/debugger.ts\<close> that
  hands a configuration with a \<open>program\<close>, or an attach request, back as it is and
  otherwise passes the project folder only.
\<close>

definition resolveDebugConfiguration_debugger ::
  "editor_host \<Rightarrow> DebugConfiguration \<Rightarrow> effects
     \<Rightarrow> DebugConfiguration option settled \<times> effects" where
  "resolveDebugConfiguration_debugger h config fx =
     (if truthy (program config) \<or> request config = JStr (str ''attach'')
      then (Returns (Some config), fx)
      else if languageId h \<noteq> Some (str ''noir'')
      then (Returns None, fx\<lparr>messages := messages fx @ [str ''Select a Noir file to debug'']\<rparr>)
      else
        (let currentFilePath = fsPath h;
             currentProjectFolder = findNearestPackageFrom h currentFilePath;
             nargoPath = js_or (nargoPath_setting h) (findNargo h);
             args = [JStr (str ''dap''),
                     JStr (str ''--preflight-check''),
                     JStr (str ''--preflight-project-folder''),
                     currentProjectFolder];
             preflightCheck = spawn h nargoPath args
         in awaitPreflight h preflightCheck
              \<lparr> type = JStr (str ''noir''),
                name = JStr (str ''Noir binary package''),
                request = JStr (str ''launch''),
                program = JStr currentFilePath,
                projectFolder = currentProjectFolder,
                package = JUndefined,
                proverName = JUndefined,
                generateAcir = JUndefined,
                skipInstrumentation = JUndefined \<rparr>
              (fx\<lparr>outputChannel := banner nargoPath,
                  spawned := spawned fx @ [(nargoPath, args)]\<rparr>)))"

text \<open>A host for the examples: a Noir file is open and the child exits as told.\<close>

definition example_host :: "exit_code \<Rightarrow> editor_host" where
  "example_host code =
     \<lparr> languageId = Some (str ''noir''),
       fsPath = str ''/proj/src/main.nr'',
       nargoPath_setting = JUndefined,
       findNargo = JStr (str ''nargo''),
       findNearestPackageFrom = (\<lambda>_. JStr (str ''/proj'')),
       spawn = (\<lambda>_ _. \<lparr> data_events = [], exit_event = Some code \<rparr>),
       buffer_toString = map ucast \<rparr>"

definition no_effects :: effects where
  "no_effects = \<lparr> outputChannel = [], channel_shown = False, messages = [], spawned = [] \<rparr>"

definition empty_config :: DebugConfiguration where
  "empty_config =
     \<lparr> type = JUndefined, name = JUndefined, request = JUndefined, program = JUndefined,
       projectFolder = JUndefined, package = JUndefined, proverName = JUndefined,
       generateAcir = JUndefined, skipInstrumentation = JUndefined \<rparr>"

definition attach_config :: DebugConfiguration where
  "attach_config =
     empty_config\<lparr> request := JStr (str ''attach''), program := JStr (str ''/other/lib.nr'') \<rparr>"

definition full_config :: DebugConfiguration where
  "full_config =
     \<lparr> type = JStr (str ''noir''), name = JStr (str ''Debug main''),
       request = JStr (str ''launch''), program = JStr (str ''/proj/src/main.nr''),
       projectFolder = JStr (str ''/work/pkg''), package = JStr (str ''main_pkg''),
       proverName = JStr (str ''Alt''), generateAcir = JBool True,
       skipInstrumentation = JBool True \<rparr>"

section \<open>The test tree\<close>

text \<open>
  A \<open>TestItem\<close> of the editor's testing API: \<open>item_ref\<close> stands for the identity
  of the object (what \<^verbatim>\<open>includes\<close> compares), \<open>parent\<close> holds the identity of the
  parent item and is \<open>None\<close> for \<open>undefined\<close>. The children are kept in the order
  in which \<open>forEach\<close> visits them. A \<open>Uri\<close> is a parsed uri, in its normal form.
\<close>

type_synonym Range = "(nat \<times> nat) \<times> (nat \<times> nat)"

type_synonym Uri = jsstring

datatype TestItem =
  TestItem (item_ref: nat) (item_id: jsstring) (item_label: jsstring)
    (item_uri: "Uri option") (item_range: "Range option")
    (parent: "nat option") (children: "TestItem list")

text \<open>The number of items of a subtree, the measure of the traversal.\<close>

fun nodes :: "TestItem \<Rightarrow> nat" where
  "nodes (TestItem r i l u rg p cs) = Suc (sum_list (map nodes cs))"

text \<open>
  A \<open>TestItemCollection\<close> of the editor keeps one item per id: \<open>add\<close> replaces
  the item that has the same id, and appends otherwise; \<open>children.add\<close> also makes
  the owner the parent of the added item.
\<close>

fun collection_add :: "TestItem \<Rightarrow> TestItem list \<Rightarrow> TestItem list" where
  "collection_add item [] = [item]"
| "collection_add item (x # xs) =
     (if item_id x = item_id item then item # xs else x # collection_add item xs)"

definition collection_get :: "jsstring \<Rightarrow> TestItem list \<Rightarrow> TestItem option" where
  "collection_get i xs = find (\<lambda>x. item_id x = i) xs"

definition children_add :: "TestItem \<Rightarrow> TestItem \<Rightarrow> TestItem" where
  "children_add pkg item =
     (case pkg of TestItem r i l u rg p cs \<Rightarrow>
        (case item of TestItem r' i' l' u' rg' p' cs' \<Rightarrow>
           TestItem r i l u rg p (collection_add (TestItem r' i' l' u' rg' (Some r) cs') cs)))"

text \<open>
  The test controller: its root items, the next fresh identity for
  \<open>createTestItem\<close>, whether the host has \<open>invalidateTestResults\<close> (added in
  version 1.81.0 of the editor), and the arguments of the calls made to it.
\<close>

record TestController =
  items :: "TestItem list"
  next_ref :: nat
  invalidateTestResults :: bool
  invalidated :: "TestItem option list"

definition createTestItem ::
  "TestController \<Rightarrow> jsstring \<Rightarrow> jsstring \<Rightarrow> Uri option \<Rightarrow> TestItem \<times> TestController" where
  "createTestItem ctrl i l u =
     (TestItem (next_ref ctrl) i l u None None [], ctrl\<lparr>next_ref := Suc (next_ref ctrl)\<rparr>)"

section \<open>Building the test tree\<close>

text \<open>
  The payload of \<^verbatim>\<open>nargo/tests/update\<close> and of the answer to \<^verbatim>\<open>nargo/tests\<close>,
  of type \<open>NargoTests\<close>: the field \<open>tests\<close> is optional.
\<close>

record NargoTest =
  test_id :: jsstring
  test_label :: jsstring
  test_uri :: jsstring
  test_range :: Range

record NargoTests =
  tests_package :: jsstring
  tests_uri :: jsstring
  tests :: "NargoTest list option"

text \<open>
  Reading a property of \<open>undefined\<close> throws a \<open>TypeError\<close>; \<open>Uri.parse\<close> of the
  editor throws a \<open>UriError\<close> on a string that it does not accept. \<open>Uri.parse\<close> is
  a function of the editor: it is the parameter \<open>parse\<close> of the functions below,
  with \<open>None\<close> where it throws.
\<close>

datatype error = TypeError | UriError

text \<open>The assignment \<^verbatim>\<open>item.range = test.range\<close>.\<close>

definition set_range :: "Range option \<Rightarrow> TestItem \<Rightarrow> TestItem" where
  "set_range rg item = (case item of TestItem r i l u _ p cs \<Rightarrow> TestItem r i l u rg p cs)"

text \<open>
  The callback of \<^verbatim>\<open>testData.tests.forEach\<close> in \<open>#createTests\<close>. The argument
  \<^verbatim>\<open>Uri.parse(test.uri)\<close> is evaluated before \<open>createTestItem\<close> is called.
\<close>

definition addTest ::
  "(jsstring \<Rightarrow> Uri option) \<Rightarrow> TestItem \<times> TestController \<Rightarrow> NargoTest
     \<Rightarrow> error + TestItem \<times> TestController" where
  "addTest parse state test =
     (case state of (pkg, ctrl) \<Rightarrow>
        (case parse (test_uri test) of
           None \<Rightarrow> Inl UriError
         | Some u \<Rightarrow>
             (case createTestItem ctrl (test_id test) (test_label test) (Some u) of
                (item, ctrl') \<Rightarrow>
                  Inr (children_add pkg (set_range (Some (test_range test)) item), ctrl'))))"

text \<open>
  \<^verbatim>\<open>testData.tests.forEach\<close>: the callback runs on the tests in their order, and
  an error thrown by it ends the loop.
\<close>

fun forEach_addTest ::
  "(jsstring \<Rightarrow> Uri option) \<Rightarrow> TestItem \<times> TestController \<Rightarrow> NargoTest list
     \<Rightarrow> error option \<times> TestItem \<times> TestController" where
  "forEach_addTest parse state [] = (None, state)"
| "forEach_addTest parse state (test # ts) =
     (case addTest parse state test of
        Inl e \<Rightarrow> (Some e, state)
      | Inr state' \<Rightarrow> forEach_addTest parse state' ts)"

text \<open>
  \<open>#createTests\<close>: the result is the error thrown, if any, and the controller as
  it is then. After an error \<^verbatim>\<open>items.add(pkg)\<close> is not reached.
\<close>

definition createTests ::
  "(jsstring \<Rightarrow> Uri option) \<Rightarrow> NargoTests \<Rightarrow> TestController
     \<Rightarrow> error option \<times> TestController" where
  "createTests parse testData ctrl =
     (case createTestItem ctrl (tests_package testData) (tests_package testData) None of
        (pkg, ctrl1) \<Rightarrow>
          (case tests testData of
             None \<Rightarrow> (Some TypeError, ctrl1)
           | Some ts \<Rightarrow>
               (case forEach_addTest parse (pkg, ctrl1) ts of
                  (Some e, pkg', ctrl2) \<Rightarrow> (Some e, ctrl2)
                | (None, pkg', ctrl2) \<Rightarrow>
                    (None, ctrl2\<lparr>items := collection_add pkg' (items ctrl2)\<rparr>))))"

text \<open>
  The field \<open>#testController\<close> of the client is set when the server announces
  test support, and is \<open>undefined\<close> before.
\<close>

record Client =
  testController :: "TestController option"

text \<open>\<open>#updateTests\<close>, the handler of \<^verbatim>\<open>nargo/tests/update\<close>.\<close>

definition updateTests ::
  "(jsstring \<Rightarrow> Uri option) \<Rightarrow> NargoTests \<Rightarrow> Client \<Rightarrow> error option \<times> Client" where
  "updateTests parse testData client =
     (case testController client of
        None \<Rightarrow> (Some TypeError, client)
      | Some ctrl \<Rightarrow>
          (let ctrl1 =
                 (if invalidateTestResults ctrl
                  then ctrl\<lparr>invalidated := invalidated ctrl
                              @ [collection_get (tests_package testData) (items ctrl)]\<rparr>
                  else ctrl)
           in case createTests parse testData ctrl1 of
                (err, ctrl2) \<Rightarrow> (err, client\<lparr>testController := Some ctrl2\<rparr>)))"

text \<open>
  The items that \<open>#createTests\<close> is meant to build for a list of tests: one per
  test, in the order of the list, with parent \<open>p\<close>, the identities from \<open>r\<close> on
  and the parsed uris.
\<close>

fun new_items ::
  "(jsstring \<Rightarrow> Uri option) \<Rightarrow> nat \<Rightarrow> nat \<Rightarrow> NargoTest list \<Rightarrow> TestItem list" where
  "new_items parse p r [] = []"
| "new_items parse p r (t # ts) =
     TestItem r (test_id t) (test_label t) (parse (test_uri t)) (Some (test_range t)) (Some p) []
       # new_items parse p (Suc r) ts"

section \<open>Running tests\<close>

text \<open>
  The answer to a \<^verbatim>\<open>nargo/tests/run\<close> request: a result, a rejected promise, or
  none at all.
\<close>

record RunTestResult =
  result_id :: jsstring
  result :: jsstring
  message :: jsstring

datatype reply = Response RunTestResult | Rejection jsstring | NoReply

record TestRunRequest =
  request_include :: "TestItem list option"
  request_exclude :: "TestItem list option"

record TestRun =
  sent :: "TestItem list"
  passed :: "TestItem list"
  failed :: "(TestItem \<times> jsstring) list"
  ended :: bool

text \<open>\<^verbatim>\<open>request.exclude?.includes(test)\<close>.\<close>

definition excluded :: "TestItem list option \<Rightarrow> TestItem \<Rightarrow> bool" where
  "excluded ex test =
     (case ex of None \<Rightarrow> False | Some xs \<Rightarrow> list_ex (\<lambda>x. item_ref x = item_ref test) xs)"

lemma nodes_butlast_last:
  "queue \<noteq> [] \<Longrightarrow>
   sum_list (map nodes queue) = sum_list (map nodes (butlast queue)) + nodes (last queue)"
  by (induction queue) auto

lemma nodes_children: "nodes t = Suc (sum_list (map nodes (children t)))"
  by (cases t) simp

text \<open>
  The \<open>while\<close> loop of \<open>#runTest\<close>. The queue is the array: \<open>pop\<close> takes its
  last element and \<open>push\<close> appends. \<open>cancelled k\<close> is what
  \<open>token.isCancellationRequested\<close> reads at the \<open>k\<close>-th test of the loop condition,
  and \<open>send n i\<close> is the answer of the server to the \<open>n\<close>-th request, for the test
  id \<open>i\<close>. \<open>sent\<close> lists the tests whose ids were sent.
\<close>

function runLoop ::
  "(nat \<Rightarrow> bool) \<Rightarrow> (nat \<Rightarrow> jsstring \<Rightarrow> reply) \<Rightarrow> TestItem list option
     \<Rightarrow> nat \<Rightarrow> TestItem list \<Rightarrow> TestRun \<Rightarrow> unit settled \<times> TestRun" where
  "runLoop cancelled send ex k queue run =
     (if queue \<noteq> [] \<and> \<not> cancelled k then
        (let test = last queue; queue' = butlast queue in
         if excluded ex test then runLoop cancelled send ex (Suc k) queue' run
         else if parent test \<noteq> None then
           (let run' = run\<lparr>sent := sent run @ [test]\<rparr> in
            case send (length (sent run)) (item_id test) of
              Rejection e \<Rightarrow> (Throws e, run')
            | NoReply \<Rightarrow> (Pending, run')
            | Response r \<Rightarrow>
                if result r = str ''pass''
                then runLoop cancelled send ex (Suc k) queue' (run'\<lparr>passed := passed run' @ [test]\<rparr>)
                else if result r = str ''fail'' \<or> result r = str ''error''
                then runLoop cancelled send ex (Suc k) queue'
                       (run'\<lparr>failed := failed run' @ [(test, message r)]\<rparr>)
                else runLoop cancelled send ex (Suc k) (queue' @ children test) run')
         else runLoop cancelled send ex (Suc k) (queue' @ children test) run)
      else (Returns (), run))"
  by pat_completeness auto
termination
  by (relation "measure (\<lambda>(cancelled, send, ex, k, queue, run). sum_list (map nodes queue))")
     (auto simp: nodes_butlast_last nodes_children)

declare runLoop.simps [simp del]

text \<open>The queue before the loop: \<open>request.include\<close>, or all items of the controller.\<close>

definition initialQueue :: "TestController \<Rightarrow> TestRunRequest \<Rightarrow> TestItem list" where
  "initialQueue ctrl req = (case request_include req of Some inc \<Rightarrow> inc | None \<Rightarrow> items ctrl)"

text \<open>\<open>#runTest\<close>: \<open>run.end()\<close> is reached when the loop ends without an error.\<close>

definition runTest ::
  "TestController \<Rightarrow> (nat \<Rightarrow> bool) \<Rightarrow> (nat \<Rightarrow> jsstring \<Rightarrow> reply) \<Rightarrow> TestRunRequest
     \<Rightarrow> unit settled \<times> TestRun" where
  "runTest ctrl cancelled send req =
     (let run = \<lparr> sent = [], passed = [], failed = [], ended = False \<rparr>;
          queue = initialQueue ctrl req
      in case runLoop cancelled send (request_exclude req) 0 queue run of
           (Returns u, run') \<Rightarrow> (Returns (), run'\<lparr>ended := True\<rparr>)
         | (Throws e, run') \<Rightarrow> (Throws e, run')
         | (Pending, run') \<Rightarrow> (Pending, run'))"

text \<open>
  The items strictly below an item, the items of its subtree, and the items of the
  trees of a list of roots.
\<close>

fun descendants :: "TestItem \<Rightarrow> TestItem list" where
  "descendants (TestItem r i l u rg p cs) = concat (map (\<lambda>c. c # descendants c) cs)"

definition subtree :: "TestItem \<Rightarrow> TestItem list" where
  "subtree t = t # descendants t"

definition forest :: "TestItem list \<Rightarrow> TestItem list" where
  "forest ts = concat (map subtree ts)"

text \<open>
  The requests that the editor passes to the handler of a run profile: a request
  for all tests of the controller has no include list; otherwise every included
  item is an item of the tree of the controller, and an exclusion is passed on only
  when it lies strictly below an included item.
\<close>

definition host_filtered :: "TestController \<Rightarrow> TestRunRequest \<Rightarrow> bool" where
  "host_filtered ctrl req =
     (case request_include req of
        None \<Rightarrow> True
      | Some inc \<Rightarrow>
          list_all (\<lambda>i. i \<in> set (forest (items ctrl))) inc \<and>
          (case request_exclude req of
             None \<Rightarrow> True
           | Some ex \<Rightarrow>
               list_all (\<lambda>e. list_ex (\<lambda>i. item_ref e \<in> item_ref ` set (descendants i)) inc) ex))"

text \<open>
  One pass through the body of the \<open>while\<close> loop of \<open>#runTest\<close>, from the state
  \<open>(k, queue, run)\<close>: the outcome when the loop ends there, or the state at the next
  test of the loop condition. \<open>runLoop\<close> iterates it (\<open>runLoop_loopBody\<close> below),
  and \<open>visits\<close> holds of the states that the loop passes through from a start
  state.
\<close>

type_synonym loop_state = "nat \<times> TestItem list \<times> TestRun"

definition loopBody ::
  "(nat \<Rightarrow> bool) \<Rightarrow> (nat \<Rightarrow> jsstring \<Rightarrow> reply) \<Rightarrow> TestItem list option
     \<Rightarrow> loop_state \<Rightarrow> (unit settled \<times> TestRun) + loop_state" where
  "loopBody cancelled send ex state =
     (case state of (k, queue, run) \<Rightarrow>
        if queue \<noteq> [] \<and> \<not> cancelled k then
          (let test = last queue; queue' = butlast queue in
           if excluded ex test then Inr (Suc k, queue', run)
           else if parent test \<noteq> None then
             (let run' = run\<lparr>sent := sent run @ [test]\<rparr> in
              case send (length (sent run)) (item_id test) of
                Rejection e \<Rightarrow> Inl (Throws e, run')
              | NoReply \<Rightarrow> Inl (Pending, run')
              | Response r \<Rightarrow>
                  if result r = str ''pass''
                  then Inr (Suc k, queue', run'\<lparr>passed := passed run' @ [test]\<rparr>)
                  else if result r = str ''fail'' \<or> result r = str ''error''
                  then Inr (Suc k, queue', run'\<lparr>failed := failed run' @ [(test, message r)]\<rparr>)
                  else Inr (Suc k, queue' @ children test, run'))
           else Inr (Suc k, queue' @ children test, run))
        else Inl (Returns (), run))"

inductive visits ::
  "(nat \<Rightarrow> bool) \<Rightarrow> (nat \<Rightarrow> jsstring \<Rightarrow> reply) \<Rightarrow> TestItem list option
     \<Rightarrow> loop_state \<Rightarrow> loop_state \<Rightarrow> bool"
  for cancelled send ex start where
    visits_start: "visits cancelled send ex start start"
  | visits_next: "visits cancelled send ex start state \<Longrightarrow>
                 loopBody cancelled send ex state = Inr state' \<Longrightarrow>
                 visits cancelled send ex start state'"

code_pred visits .

text \<open>
  The items of the subtree of an item that are reached from it through items that
  are not excluded (the item itself included).
\<close>

fun visible :: "TestItem list option \<Rightarrow> TestItem \<Rightarrow> TestItem list" where
  "visible ex (TestItem r i l u rg p cs) =
     (if excluded ex (TestItem r i l u rg p cs) then []
      else TestItem r i l u rg p cs # concat (map (visible ex) cs))"

text \<open>A package \<open>A\<close> with the tests \<open>T1\<close> and \<open>T2\<close>, and a server that passes every test.\<close>

definition new_run :: TestRun where
  "new_run = \<lparr> sent = [], passed = [], failed = [], ended = False \<rparr>"

definition testT1 :: TestItem where
  "testT1 = TestItem 1 (str ''T1'') (str ''T1'') (Some (str ''file:///proj/src/main.nr''))
              (Some ((1, 0), (3, 1))) (Some 0) []"

definition testT2 :: TestItem where
  "testT2 = TestItem 2 (str ''T2'') (str ''T2'') (Some (str ''file:///proj/src/main.nr''))
              (Some ((5, 0), (7, 1))) (Some 0) []"

definition pkgA :: TestItem where
  "pkgA = TestItem 0 (str ''A'') (str ''A'') None None None [testT1, testT2]"

definition example_controller :: TestController where
  "example_controller =
     \<lparr> items = [pkgA], next_ref = 3, invalidateTestResults = True, invalidated = [] \<rparr>"

definition passing_server :: "nat \<Rightarrow> jsstring \<Rightarrow> reply" where
  "passing_server n i = Response \<lparr> result_id = i, result = str ''pass'', message = [] \<rparr>"

definition never_cancelled :: "nat \<Rightarrow> bool" where
  "never_cancelled k = False"

definition run_all :: TestRunRequest where
  "run_all = \<lparr> request_include = None, request_exclude = None \<rparr>"

definition run_all_without_A :: TestRunRequest where
  "run_all_without_A = \<lparr> request_include = None, request_exclude = Some [pkgA] \<rparr>"

text \<open>Two notifications for the package \<open>A\<close>: one without \<open>tests\<close>, one with \<open>T1\<close> only.\<close>

definition update_without_tests :: NargoTests where
  "update_without_tests =
     \<lparr> tests_package = str ''A'', tests_uri = str ''file:///proj'', tests = None \<rparr>"

definition update_only_T1 :: NargoTests where
  "update_only_T1 =
     \<lparr> tests_package = str ''A'', tests_uri = str ''file:///proj'',
       tests = Some [\<lparr> test_id = str ''T1'', test_label = str ''T1'',
                       test_uri = str ''file:///proj/src/main.nr'',
                       test_range = ((1, 0), (3, 1)) \<rparr>] \<rparr>"

definition example_client :: Client where
  "example_client = \<lparr> testController = Some example_controller \<rparr>"

section \<open>Properties of the sanitizer\<close>

lemma in_class_non_printable:
  "in_class [Rng (cu CHR '' '') (cu CHR ''~''), Chr 0x0A, Chr 0x09] c = printable c"
  by (auto simp: in_class_def printable_def cu_def)

lemma rmatch_non_printable:
  "rmatch non_printable (c # cs) = (if printable c then [] else [cs])"
  by (simp add: non_printable_def in_class_non_printable)

lemma replace_g_non_printable: "replace_g non_printable s = filter printable s"
  by (induction s) (simp_all add: rmatch_non_printable)

lemma printable_not_escape: "printable c \<Longrightarrow> c \<noteq> 0x1B"
  by (auto simp: printable_def)

lemma rmatch_ansi_escape_no_esc: "c \<noteq> 0x1B \<Longrightarrow> rmatch ansi_escape (c # cs) = []"
  by (simp add: ansi_escape_def)

lemma replace_g_ansi_escape_clean:
  "\<forall>c \<in> set s. c \<noteq> 0x1B \<Longrightarrow> replace_g ansi_escape s = s"
  by (induction s) (simp_all add: rmatch_ansi_escape_no_esc)

text \<open>
  Claim C6. Whatever bytes the pre-flight subprocess writes and however they are
  decoded, the line that \<open>preflightCheckPrinter\<close> appends to the output channel
  contains only tab, newline and the characters from space to tilde; the earlier
  lines of the channel are left as they were.
\<close>

theorem C6_sanitizer_output_printable:
  "\<exists>line. preflightCheckPrinter toString buf output = output @ [line]
      \<and> (\<forall>c \<in> set line. printable c)"
  by (simp add: preflightCheckPrinter_def formattedOutput_def replace_g_non_printable)

theorem C6_sanitizer_output_printable_witness:
  "preflightCheckPrinter (map ucast) [0x1B, 0x5B, 0x33, 0x31, 0x6D, 0x6F, 0x6B, 0x07, 0xC3] []
     = [str ''ok'']
   \<and> list_all printable (str ''ok'')"
proof -
  have run: "preflightCheckPrinter (map ucast)
      [0x1B, 0x5B, 0x33, 0x31, 0x6D, 0x6F, 0x6B, 0x07, 0xC3] [] = [str ''ok'']"
  proof -
    have decoded: "map ucast [0x1B, 0x5B, 0x33, 0x31, 0x6D, 0x6F, 0x6B, 0x07, 0xC3 :: 8 word]
        = ([0x1B, 0x5B, 0x33, 0x31, 0x6D, 0x6F, 0x6B, 0x07, 0xC3] :: jsstring)"
      by simp
    have stage1: "replace_g ansi_escape [0x1B, 0x5B, 0x33, 0x31, 0x6D, 0x6F, 0x6B, 0x07, 0xC3]
        = [0x6F, 0x6B, 0x07, 0xC3]"
      by (simp add: ansi_escape_def in_class_def cu_def)
    have stage2: "filter printable [0x6F, 0x6B, 0x07, 0xC3] = str ''ok''"
      by (simp add: printable_def str_def cu_def)
    show ?thesis
      unfolding preflightCheckPrinter_def formattedOutput_def decoded stage1
        replace_g_non_printable stage2
      by simp
  qed
  from C6_sanitizer_output_printable
    [of "map ucast" "[0x1B, 0x5B, 0x33, 0x31, 0x6D, 0x6F, 0x6B, 0x07, 0xC3]" "[]"]
  obtain line where
    "preflightCheckPrinter (map ucast)
       [0x1B, 0x5B, 0x33, 0x31, 0x6D, 0x6F, 0x6B, 0x07, 0xC3] [] = [] @ [line]"
    and "\<forall>c \<in> set line. printable c"
    by blast
  with run show ?thesis by (simp add: list_all_iff)
qed

text \<open>
  Claim C7. On a decoded input made only of tab, newline and the characters from
  space to tilde the sanitizer changes nothing: the line appended to the channel is
  the input. (Such an input holds no escape character, hence no escape sequence.)
\<close>

theorem C7_sanitizer_identity_on_clean:
  assumes "\<forall>c \<in> set (toString buf). printable c"
  shows "preflightCheckPrinter toString buf output = output @ [toString buf]"
proof -
  from assms have "\<forall>c \<in> set (toString buf). c \<noteq> 0x1B"
    by (blast dest: printable_not_escape)
  then have "replace_g ansi_escape (toString buf) = toString buf"
    by (rule replace_g_ansi_escape_clean)
  moreover from assms have "filter printable (toString buf) = toString buf"
    by (simp add: filter_id_conv)
  ultimately show ?thesis
    by (simp add: preflightCheckPrinter_def formattedOutput_def replace_g_non_printable)
qed

theorem C7_sanitizer_identity_on_clean_witness:
  "list_all printable (map ucast [0x6F, 0x6B, 0x0A :: 8 word] :: jsstring)
   \<and> preflightCheckPrinter (map ucast) [0x6F, 0x6B, 0x0A] [] = [[0x6F, 0x6B, 0x0A]]"
proof -
  have clean: "\<forall>c \<in> set (map ucast [0x6F, 0x6B, 0x0A :: 8 word] :: jsstring). printable c"
    by (simp add: printable_def)
  from C7_sanitizer_identity_on_clean [of "map ucast" "[0x6F, 0x6B, 0x0A]" "[]", OF clean] clean
  show ?thesis by (simp add: list_all_iff)
qed

section \<open>Properties of resolveDebugConfiguration\<close>


lemma awaitPreflight_fst:
  "exit_event p = Some code \<Longrightarrow>
   fst (awaitPreflight h p r fx) =
     (if code = Code 0 then Returns (Some r)
      else Throws (str ''Error launching debugger. Please inspect the Output pane for more details.''))"
  by (simp add: awaitPreflight_def Let_def)

lemma awaitPreflight_spawned: "spawned (snd (awaitPreflight h p r fx)) = spawned fx"
  by (simp add: awaitPreflight_def Let_def split: option.split)

lemma truthy_nonempty: "truthy (js_and v (JBool (v \<noteq> JStr []))) = truthy v"
  by (cases v) (auto simp: js_and_def)

lemma resolvedConfig_projectFolder:
  "projectFolder (resolvedConfig h config) =
     (if truthy (projectFolder config) then projectFolder config
      else findNearestPackageFrom h (fsPath h))"
  by (simp add: resolvedConfig_def Let_def truthy_nonempty)

text \<open>
  Claim C1. When a Noir file is open, so that the pre-flight subprocess is spawned,
  and that subprocess exits with code 0, \<open>resolveDebugConfiguration\<close> returns a
  configuration whose \<open>program\<close> is the path of the current file and whose
  \<open>projectFolder\<close> is the \<open>projectFolder\<close> of the input when one is given (a
  non-empty value), and otherwise what \<open>findNearestPackageFrom\<close> computes from the
  path of the current file.
\<close>

theorem C1_exit_zero_returns_config:
  assumes noir: "languageId h = Some (str ''noir'')"
    and exit0: "exit_event (spawn h (js_or (nargoPath_setting h) (findNargo h))
                  (preflightArgs config (resolvedConfig h config))) = Some (Code 0)"
  shows "\<exists>rc. fst (resolveDebugConfiguration h config fx) = Returns (Some rc)
      \<and> program rc = JStr (fsPath h)
      \<and> projectFolder rc =
          (if truthy (projectFolder config) then projectFolder config
           else findNearestPackageFrom h (fsPath h))"
proof -
  have "fst (resolveDebugConfiguration h config fx) = Returns (Some (resolvedConfig h config))"
    using noir exit0 by (simp add: resolveDebugConfiguration_def Let_def awaitPreflight_fst)
  moreover have "program (resolvedConfig h config) = JStr (fsPath h)"
    by (simp add: resolvedConfig_def Let_def)
  ultimately show ?thesis
    using resolvedConfig_projectFolder by blast
qed

lemma example_host_simps:
  "languageId (example_host c) = Some (str ''noir'')"
  "fsPath (example_host c) = str ''/proj/src/main.nr''"
  "nargoPath_setting (example_host c) = JUndefined"
  "findNargo (example_host c) = JStr (str ''nargo'')"
  "findNearestPackageFrom (example_host c) p = JStr (str ''/proj'')"
  "spawn (example_host c) cmd args = \<lparr> data_events = [], exit_event = Some c \<rparr>"
  "buffer_toString (example_host c) = map ucast"
  by (simp_all add: example_host_def)

theorem C1_exit_zero_returns_config_witness:
  "languageId (example_host (Code 0)) = Some (str ''noir'')
   \<and> exit_event (spawn (example_host (Code 0))
         (js_or (nargoPath_setting (example_host (Code 0))) (findNargo (example_host (Code 0))))
         (preflightArgs empty_config (resolvedConfig (example_host (Code 0)) empty_config)))
       = Some (Code 0)
   \<and> (\<exists>rc. fst (resolveDebugConfiguration (example_host (Code 0)) empty_config no_effects)
               = Returns (Some rc)
         \<and> program rc = JStr (str ''/proj/src/main.nr'')
         \<and> projectFolder rc = JStr (str ''/proj''))"
proof -
  have noir: "languageId (example_host (Code 0)) = Some (str ''noir'')"
    by (simp add: example_host_simps)
  have exit0: "exit_event (spawn (example_host (Code 0))
         (js_or (nargoPath_setting (example_host (Code 0))) (findNargo (example_host (Code 0))))
         (preflightArgs empty_config (resolvedConfig (example_host (Code 0)) empty_config)))
       = Some (Code 0)"
    by (simp add: example_host_simps)
  from C1_exit_zero_returns_config [OF noir exit0, of no_effects] noir exit0
  show ?thesis by (simp add: example_host_simps empty_config_def)
qed


text \<open>
  Claim C2. When the pre-flight subprocess exits with a code other than 0 (a
  nonzero number, or \<open>null\<close> after a signal), \<open>resolveDebugConfiguration\<close> throws
  and so returns no configuration. This holds for both versions of the function; the
  one of \<^verbatim>\<open>src/debugger.ts\<close> spawns the subprocess only when the input has no
  \<open>program\<close> and is not an attach request.
\<close>

theorem C2_nonzero_exit_throws:
  assumes noir: "languageId h = Some (str ''noir'')"
    and nonzero: "code \<noteq> Code 0"
  shows "(exit_event (spawn h (js_or (nargoPath_setting h) (findNargo h))
             (preflightArgs config (resolvedConfig h config))) = Some code
          \<longrightarrow> (\<exists>e. fst (resolveDebugConfiguration h config fx) = Throws e))
       \<and> (\<not> truthy (program config) \<and> request config \<noteq> JStr (str ''attach'')
          \<and> exit_event (spawn h (js_or (nargoPath_setting h) (findNargo h))
                [JStr (str ''dap''), JStr (str ''--preflight-check''),
                 JStr (str ''--preflight-project-folder''),
                 findNearestPackageFrom h (fsPath h)]) = Some code
          \<longrightarrow> (\<exists>e. fst (resolveDebugConfiguration_debugger h config fx) = Throws e))"
  using noir nonzero
  by (simp add: resolveDebugConfiguration_def resolveDebugConfiguration_debugger_def
      Let_def awaitPreflight_fst)

theorem C2_nonzero_exit_throws_witness:
  "languageId (example_host (Code 1)) = Some (str ''noir'')
   \<and> Code 1 \<noteq> Code 0
   \<and> exit_event (spawn (example_host (Code 1))
         (js_or (nargoPath_setting (example_host (Code 1))) (findNargo (example_host (Code 1))))
         (preflightArgs empty_config (resolvedConfig (example_host (Code 1)) empty_config)))
       = Some (Code 1)
   \<and> \<not> truthy (program empty_config)
   \<and> request empty_config \<noteq> JStr (str ''attach'')
   \<and> exit_event (spawn (example_host (Code 1))
         (js_or (nargoPath_setting (example_host (Code 1))) (findNargo (example_host (Code 1))))
         [JStr (str ''dap''), JStr (str ''--preflight-check''),
          JStr (str ''--preflight-project-folder''),
          findNearestPackageFrom (example_host (Code 1)) (fsPath (example_host (Code 1)))])
       = Some (Code 1)
   \<and> fst (resolveDebugConfiguration (example_host (Code 1)) empty_config no_effects)
       = Throws (str ''Error launching debugger. Please inspect the Output pane for more details.'')
   \<and> fst (resolveDebugConfiguration_debugger (example_host (Code 1)) empty_config no_effects)
       = Throws (str ''Error launching debugger. Please inspect the Output pane for more details.'')"
proof -
  have noir: "languageId (example_host (Code 1)) = Some (str ''noir'')"
    by (simp add: example_host_simps)
  have nonzero: "Code 1 \<noteq> Code 0"
    by simp
  have thrown: "fst (resolveDebugConfiguration (example_host (Code 1)) empty_config no_effects)
       = Throws (str ''Error launching debugger. Please inspect the Output pane for more details.'')"
    by (simp add: resolveDebugConfiguration_def Let_def awaitPreflight_fst example_host_simps)
  have thrown': "fst (resolveDebugConfiguration_debugger (example_host (Code 1)) empty_config no_effects)
       = Throws (str ''Error launching debugger. Please inspect the Output pane for more details.'')"
    by (simp add: resolveDebugConfiguration_debugger_def Let_def awaitPreflight_fst
        example_host_simps empty_config_def)
  from C2_nonzero_exit_throws [OF noir nonzero, of empty_config no_effects] noir thrown thrown'
  show ?thesis by (simp add: example_host_simps empty_config_def)
qed

text \<open>
  Claim C3. When the resolved configuration has \<open>projectFolder\<close> \<^verbatim>\<open>/proj\<close>,
  \<open>proverName\<close> \<^verbatim>\<open>Prover\<close>, the empty \<open>package\<close> and both flags false, the
  one command spawned has exactly the six arguments \<^verbatim>\<open>dap\<close>,
  \<^verbatim>\<open>--preflight-check\<close>, \<^verbatim>\<open>--preflight-project-folder\<close>, \<^verbatim>\<open>/proj\<close>,
  \<^verbatim>\<open>--preflight-prover-name\<close>, \<^verbatim>\<open>Prover\<close>.
\<close>

theorem C3_preflight_arguments:
  assumes noir: "languageId h = Some (str ''noir'')"
    and folder: "projectFolder (resolvedConfig h config) = JStr (str ''/proj'')"
    and prover: "proverName (resolvedConfig h config) = JStr (str ''Prover'')"
    and pkg: "package (resolvedConfig h config) = JStr []"
    and acir: "generateAcir (resolvedConfig h config) = JBool False"
    and skip: "skipInstrumentation (resolvedConfig h config) = JBool False"
  shows "spawned (snd (resolveDebugConfiguration h config fx)) =
           spawned fx @
           [(js_or (nargoPath_setting h) (findNargo h),
             [JStr (str ''dap''),
              JStr (str ''--preflight-check''),
              JStr (str ''--preflight-project-folder''),
              JStr (str ''/proj''),
              JStr (str ''--preflight-prover-name''),
              JStr (str ''Prover'')])]"
proof -
  have "preflightArgs config (resolvedConfig h config) =
          [JStr (str ''dap''), JStr (str ''--preflight-check''),
           JStr (str ''--preflight-project-folder''), JStr (str ''/proj''),
           JStr (str ''--preflight-prover-name''), JStr (str ''Prover'')]"
    by (simp add: preflightArgs_def folder prover pkg acir skip)
  with noir show ?thesis
    by (simp add: resolveDebugConfiguration_def Let_def awaitPreflight_spawned)
qed

lemma resolvedConfig_example_empty:
  "resolvedConfig (example_host c) empty_config =
     \<lparr> type = JStr (str ''noir''), name = JStr (str ''Noir binary package''),
       request = JStr (str ''launch''), program = JStr (str ''/proj/src/main.nr''),
       projectFolder = JStr (str ''/proj''), package = JStr [],
       proverName = JStr (str ''Prover''), generateAcir = JBool False,
       skipInstrumentation = JBool False \<rparr>"
  by (simp add: resolvedConfig_def Let_def example_host_simps empty_config_def js_or_def js_and_def)

theorem C3_preflight_arguments_witness:
  "languageId (example_host (Code 0)) = Some (str ''noir'')
   \<and> projectFolder (resolvedConfig (example_host (Code 0)) empty_config) = JStr (str ''/proj'')
   \<and> proverName (resolvedConfig (example_host (Code 0)) empty_config) = JStr (str ''Prover'')
   \<and> package (resolvedConfig (example_host (Code 0)) empty_config) = JStr []
   \<and> generateAcir (resolvedConfig (example_host (Code 0)) empty_config) = JBool False
   \<and> skipInstrumentation (resolvedConfig (example_host (Code 0)) empty_config) = JBool False
   \<and> spawned (snd (resolveDebugConfiguration (example_host (Code 0)) empty_config no_effects)) =
       [(JStr (str ''nargo''),
         [JStr (str ''dap''),
          JStr (str ''--preflight-check''),
          JStr (str ''--preflight-project-folder''),
          JStr (str ''/proj''),
          JStr (str ''--preflight-prover-name''),
          JStr (str ''Prover'')])]"
proof -
  have noir: "languageId (example_host (Code 0)) = Some (str ''noir'')"
    by (simp add: example_host_simps)
  have folder: "projectFolder (resolvedConfig (example_host (Code 0)) empty_config) = JStr (str ''/proj'')"
    and prover: "proverName (resolvedConfig (example_host (Code 0)) empty_config) = JStr (str ''Prover'')"
    and pkg: "package (resolvedConfig (example_host (Code 0)) empty_config) = JStr []"
    and acir: "generateAcir (resolvedConfig (example_host (Code 0)) empty_config) = JBool False"
    and skip: "skipInstrumentation (resolvedConfig (example_host (Code 0)) empty_config) = JBool False"
    by (simp_all add: resolvedConfig_example_empty)
  from C3_preflight_arguments [OF noir folder prover pkg acir skip, of no_effects]
    noir folder prover pkg acir skip
  show ?thesis by (simp add: example_host_simps no_effects_def js_or_def)
qed


text \<open>
  Claim C9 says that for each of the nine fields a value supplied in the input wins
  over the computed default. For \<open>request\<close> and \<open>program\<close> it does not: an input
  that supplies \<open>request\<close> \<^verbatim>\<open>attach\<close> and \<open>program\<close> \<^verbatim>\<open>/other/lib.nr\<close> is
  resolved to \<open>request\<close> \<^verbatim>\<open>launch\<close> and to the path of the current file.
\<close>

theorem C9_request_program_counterexample:
  "fst (resolveDebugConfiguration (example_host (Code 0)) attach_config no_effects)
     = Returns (Some (resolvedConfig (example_host (Code 0)) attach_config))
   \<and> request attach_config = JStr (str ''attach'')
   \<and> request (resolvedConfig (example_host (Code 0)) attach_config) = JStr (str ''launch'')
   \<and> request (resolvedConfig (example_host (Code 0)) attach_config) \<noteq> request attach_config
   \<and> program attach_config = JStr (str ''/other/lib.nr'')
   \<and> program (resolvedConfig (example_host (Code 0)) attach_config) = JStr (str ''/proj/src/main.nr'')
   \<and> program (resolvedConfig (example_host (Code 0)) attach_config) \<noteq> program attach_config"
  by (simp add: resolveDebugConfiguration_def Let_def awaitPreflight_fst example_host_simps
      resolvedConfig_def attach_config_def empty_config_def str_def cu_def)

text \<open>
  Claim C9, amended. In the returned configuration each of \<open>type\<close>, \<open>name\<close>,
  \<open>projectFolder\<close>, \<open>package\<close>, \<open>proverName\<close>, \<open>generateAcir\<close> and
  \<open>skipInstrumentation\<close> is the value of the input when that value is truthy (a
  non-empty string, \<open>true\<close>), and otherwise its default; \<open>request\<close> is always
  \<^verbatim>\<open>launch\<close> and \<open>program\<close> is always the path of the current file, whatever the
  input supplies.
\<close>

theorem C9_overrides_over_defaults:
  assumes "fst (resolveDebugConfiguration h config fx) = Returns (Some rc)"
  shows "type rc = (if truthy (type config) then type config else JStr (str ''noir''))
       \<and> name rc = (if truthy (name config) then name config
                    else JStr (str ''Noir binary package''))
       \<and> request rc = JStr (str ''launch'')
       \<and> program rc = JStr (fsPath h)
       \<and> projectFolder rc = (if truthy (projectFolder config) then projectFolder config
                             else findNearestPackageFrom h (fsPath h))
       \<and> package rc = (if truthy (package config) then package config else JStr [])
       \<and> proverName rc = (if truthy (proverName config) then proverName config
                          else JStr (str ''Prover''))
       \<and> generateAcir rc = (if truthy (generateAcir config) then generateAcir config
                            else JBool False)
       \<and> skipInstrumentation rc = (if truthy (skipInstrumentation config)
                                   then skipInstrumentation config else JBool False)"
proof -
  have "rc = resolvedConfig h config"
    using assms
    by (auto simp: resolveDebugConfiguration_def Let_def awaitPreflight_def
        split: if_splits option.splits)
  then show ?thesis
    by (simp add: resolvedConfig_def Let_def js_or_def truthy_nonempty)
qed

theorem C9_overrides_over_defaults_witness:
  "fst (resolveDebugConfiguration (example_host (Code 0)) full_config no_effects)
     = Returns (Some (full_config\<lparr> program := JStr (str ''/proj/src/main.nr'') \<rparr>))
   \<and> fst (resolveDebugConfiguration (example_host (Code 0)) empty_config no_effects)
     = Returns (Some
         \<lparr> type = JStr (str ''noir''), name = JStr (str ''Noir binary package''),
           request = JStr (str ''launch''), program = JStr (str ''/proj/src/main.nr''),
           projectFolder = JStr (str ''/proj''), package = JStr [],
           proverName = JStr (str ''Prover''), generateAcir = JBool False,
           skipInstrumentation = JBool False \<rparr>)"
proof -
  have full: "fst (resolveDebugConfiguration (example_host (Code 0)) full_config no_effects)
     = Returns (Some (resolvedConfig (example_host (Code 0)) full_config))"
    by (simp add: resolveDebugConfiguration_def Let_def awaitPreflight_fst example_host_simps)
  have empty: "fst (resolveDebugConfiguration (example_host (Code 0)) empty_config no_effects)
     = Returns (Some (resolvedConfig (example_host (Code 0)) empty_config))"
    by (simp add: resolveDebugConfiguration_def Let_def awaitPreflight_fst example_host_simps)
  have "resolvedConfig (example_host (Code 0)) full_config
          = full_config\<lparr> program := JStr (str ''/proj/src/main.nr'') \<rparr>"
    using C9_overrides_over_defaults [OF full]
    by (simp add: full_config_def example_host_simps str_def)
  with full empty show ?thesis
    by (simp add: resolvedConfig_example_empty)
qed

section \<open>Properties of the test run\<close>

lemma visible_unfold:
  "visible ex t = (if excluded ex t then [] else t # concat (map (visible ex) (children t)))"
  by (cases t) simp

lemma runLoop_empty: "runLoop cancelled send ex k [] run = (Returns (), run)"
  by (subst runLoop.simps) simp

lemma runLoop_cancelled: "cancelled k \<Longrightarrow> runLoop cancelled send ex k queue run = (Returns (), run)"
  by (subst runLoop.simps) simp

lemma runLoop_excluded:
  "\<not> cancelled k \<Longrightarrow> excluded ex t \<Longrightarrow>
   runLoop cancelled send ex k (q @ [t]) run = runLoop cancelled send ex (Suc k) q run"
  by (subst runLoop.simps) simp

lemma runLoop_root:
  "\<not> cancelled k \<Longrightarrow> \<not> excluded ex t \<Longrightarrow> parent t = None \<Longrightarrow>
   runLoop cancelled send ex k (q @ [t]) run =
     runLoop cancelled send ex (Suc k) (q @ children t) run"
  by (subst runLoop.simps) simp

lemma runLoop_leaf:
  assumes "\<not> cancelled k" "\<not> excluded ex t" "parent t \<noteq> None" "children t = []"
    and "send (length (sent run)) (item_id t) = Response r"
  shows "\<exists>run'. runLoop cancelled send ex k (q @ [t]) run =
                 runLoop cancelled send ex (Suc k) q run'
             \<and> sent run' = sent run @ [t]"
  using assms by (subst runLoop.simps) (auto simp: Let_def)

lemma runLoop_snoc:
  "\<not> cancelled k \<Longrightarrow>
   runLoop cancelled send ex k (q @ [t]) run =
     (if excluded ex t then runLoop cancelled send ex (Suc k) q run
      else if parent t \<noteq> None then
        (case send (length (sent run)) (item_id t) of
           Rejection e \<Rightarrow> (Throws e, run\<lparr>sent := sent run @ [t]\<rparr>)
         | NoReply \<Rightarrow> (Pending, run\<lparr>sent := sent run @ [t]\<rparr>)
         | Response r \<Rightarrow>
             if result r = str ''pass''
             then runLoop cancelled send ex (Suc k) q
                    (run\<lparr>sent := sent run @ [t], passed := passed run @ [t]\<rparr>)
             else if result r = str ''fail'' \<or> result r = str ''error''
             then runLoop cancelled send ex (Suc k) q
                    (run\<lparr>sent := sent run @ [t], failed := failed run @ [(t, message r)]\<rparr>)
             else runLoop cancelled send ex (Suc k) (q @ children t)
                    (run\<lparr>sent := sent run @ [t]\<rparr>))
      else runLoop cancelled send ex (Suc k) (q @ children t) run)"
  by (subst runLoop.simps) (simp add: Let_def split: reply.splits)

lemma runLoop_invariant:
  assumes "I queue (sent run)"
    and "\<And>q t s. I (q @ [t]) s \<Longrightarrow> excluded ex t \<Longrightarrow> I q s"
    and "\<And>q t s. I (q @ [t]) s \<Longrightarrow> \<not> excluded ex t \<Longrightarrow> parent t = None
           \<Longrightarrow> I (q @ children t) s"
    and "\<And>q t s. I (q @ [t]) s \<Longrightarrow> \<not> excluded ex t \<Longrightarrow> parent t \<noteq> None
           \<Longrightarrow> I q (s @ [t])"
    and "\<And>q t s. I (q @ [t]) s \<Longrightarrow> \<not> excluded ex t \<Longrightarrow> parent t \<noteq> None
           \<Longrightarrow> I (q @ children t) (s @ [t])"
  shows "\<exists>q'. I q' (sent (snd (runLoop cancelled send ex k queue run)))"
  using assms
proof (induction cancelled send ex k queue run rule: runLoop.induct)
  case (1 cancelled send ex k queue run)
  note skip = "1.prems"(2) and expand = "1.prems"(3)
    and request_done = "1.prems"(4) and request_expand = "1.prems"(5)
  note rules = "1.prems"(2-5)
  show ?case
  proof (cases "queue \<noteq> [] \<and> \<not> cancelled k")
    case False
    then have "runLoop cancelled send ex k queue run = (Returns (), run)"
      by (auto simp: runLoop_empty runLoop_cancelled)
    with "1.prems"(1) show ?thesis by auto
  next
    case True
    then obtain q t where queue: "queue = q @ [t]"
      by (metis append_butlast_last_id)
    have lb: "t = last queue" "q = butlast queue"
      by (simp_all add: queue)
    note IH = "1.IH" [OF True lb]
    from True have nc: "\<not> cancelled k" by simp
    from "1.prems"(1) have inv: "I (q @ [t]) (sent run)" by (simp add: queue)
    show ?thesis
    proof (cases "excluded ex t")
      case True
      have eq: "runLoop cancelled send ex k queue run = runLoop cancelled send ex (Suc k) q run"
        unfolding queue using nc True by (rule runLoop_excluded)
      show ?thesis
        unfolding eq by (rule IH(1) [OF True skip [OF inv True] rules])
    next
      case notex: False
      show ?thesis
      proof (cases "parent t = None")
        case True
        have eq: "runLoop cancelled send ex k queue run =
                  runLoop cancelled send ex (Suc k) (q @ children t) run"
          unfolding queue using nc notex True by (rule runLoop_root)
        have "\<not> parent t \<noteq> None" using True by simp
        from IH(5) [OF notex this expand [OF inv notex True] rules]
        show ?thesis unfolding eq .
      next
        case hasparent: False
        note sent_only = request_done [OF inv notex hasparent]
        note sent_grow = request_expand [OF inv notex hasparent]
        have unfold: "runLoop cancelled send ex k queue run =
          (case send (length (sent run)) (item_id t) of
             Rejection e \<Rightarrow> (Throws e, run\<lparr>sent := sent run @ [t]\<rparr>)
           | NoReply \<Rightarrow> (Pending, run\<lparr>sent := sent run @ [t]\<rparr>)
           | Response r \<Rightarrow>
               if result r = str ''pass''
               then runLoop cancelled send ex (Suc k) q
                      (run\<lparr>sent := sent run @ [t], passed := passed run @ [t]\<rparr>)
               else if result r = str ''fail'' \<or> result r = str ''error''
               then runLoop cancelled send ex (Suc k) q
                      (run\<lparr>sent := sent run @ [t], failed := failed run @ [(t, message r)]\<rparr>)
               else runLoop cancelled send ex (Suc k) (q @ children t)
                      (run\<lparr>sent := sent run @ [t]\<rparr>))"
          unfolding queue using notex hasparent by (simp add: runLoop_snoc [where cancelled = cancelled and k = k, OF nc])
        show ?thesis
        proof (cases "send (length (sent run)) (item_id t)")
          case (Rejection e)
          have "sent (snd (runLoop cancelled send ex k queue run)) = sent run @ [t]"
            unfolding unfold Rejection by simp
          with sent_only show ?thesis by metis
        next
          case NoReply
          have "sent (snd (runLoop cancelled send ex k queue run)) = sent run @ [t]"
            unfolding unfold NoReply by simp
          with sent_only show ?thesis by metis
        next
          case (Response r)
          note step = IH(2-4) [OF notex hasparent refl Response]
          consider "result r = str ''pass''"
            | "result r \<noteq> str ''pass''" "result r = str ''fail'' \<or> result r = str ''error''"
            | "result r \<noteq> str ''pass''" "\<not> (result r = str ''fail'' \<or> result r = str ''error'')"
            by blast
          then show ?thesis
          proof cases
            case 1
            have eq: "runLoop cancelled send ex k queue run =
                runLoop cancelled send ex (Suc k) q
                  (run\<lparr>sent := sent run @ [t]\<rparr>\<lparr>passed :=
                     passed (run\<lparr>sent := sent run @ [t]\<rparr>) @ [t]\<rparr>)"
              unfolding unfold Response using 1 by simp
            have "I q (sent (run\<lparr>sent := sent run @ [t]\<rparr>\<lparr>passed :=
                     passed (run\<lparr>sent := sent run @ [t]\<rparr>) @ [t]\<rparr>))"
              using sent_only by simp
            from step(1) [OF 1 this rules] show ?thesis
              unfolding eq .
          next
            case 2
            have eq: "runLoop cancelled send ex k queue run =
                runLoop cancelled send ex (Suc k) q
                  (run\<lparr>sent := sent run @ [t]\<rparr>\<lparr>failed :=
                     failed (run\<lparr>sent := sent run @ [t]\<rparr>) @ [(t, message r)]\<rparr>)"
              unfolding unfold Response using 2 by simp
            have "I q (sent (run\<lparr>sent := sent run @ [t]\<rparr>\<lparr>failed :=
                     failed (run\<lparr>sent := sent run @ [t]\<rparr>) @ [(t, message r)]\<rparr>))"
              using sent_only by simp
            from step(2) [OF 2 this rules] show ?thesis
              unfolding eq .
          next
            case 3
            have eq: "runLoop cancelled send ex k queue run =
                runLoop cancelled send ex (Suc k) (q @ children t)
                  (run\<lparr>sent := sent run @ [t]\<rparr>)"
              unfolding unfold Response using 3 by simp
            have "I (q @ children t) (sent (run\<lparr>sent := sent run @ [t]\<rparr>))"
              using sent_grow by simp
            from step(3) [OF 3 this rules] show ?thesis
              unfolding eq .
          qed
        qed
      qed
    qed
  qed
qed

lemma runLoop_sent_parent:
  assumes "\<forall>t \<in> set (sent run). parent t \<noteq> None"
  shows "\<forall>t \<in> set (sent (snd (runLoop cancelled send ex k queue run))). parent t \<noteq> None"
proof -
  have "\<exists>q'::TestItem list. \<forall>t \<in> set (sent (snd (runLoop cancelled send ex k queue run))).
          parent t \<noteq> None"
    by (rule runLoop_invariant [where I = "\<lambda>q s. \<forall>t \<in> set s. parent t \<noteq> None"])
       (use assms in auto)
  then show ?thesis by simp
qed

lemma visible_set:
  "\<not> excluded ex t \<Longrightarrow>
   set (visible ex t) = insert t (\<Union>c \<in> set (children t). set (visible ex c))"
  by (subst visible_unfold) auto

lemma runLoop_sent_visible:
  "set (sent (snd (runLoop cancelled send ex k queue run)))
     \<subseteq> set (sent run) \<union> (\<Union>t \<in> set queue. set (visible ex t))"
proof -
  define S where "S = set (sent run) \<union> (\<Union>t \<in> set queue. set (visible ex t))"
  have "\<exists>q'. set (sent (snd (runLoop cancelled send ex k queue run)))
               \<union> (\<Union>t \<in> set q'. set (visible ex t)) \<subseteq> S"
  proof (rule runLoop_invariant
      [where I = "\<lambda>q s. set s \<union> (\<Union>t \<in> set q. set (visible ex t)) \<subseteq> S"])
    show "set (sent run) \<union> (\<Union>t \<in> set queue. set (visible ex t)) \<subseteq> S"
      by (simp add: S_def)
  qed (auto simp: visible_set)
  then show ?thesis by (auto simp: S_def)
qed


lemma runLoop_package_of_two:
  assumes A: "parent A = None" "children A = [T1, T2]"
    and T1: "parent T1 \<noteq> None" "children T1 = []"
    and T2: "parent T2 \<noteq> None" "children T2 = []"
    and noex: "ex = None \<or> ex = Some []"
    and nocancel: "\<forall>k. \<not> cancelled k"
    and replies: "\<forall>n i. \<exists>r. send n i = Response r"
  shows "\<exists>run'. runLoop cancelled send ex k [A] run = (Returns (), run')
               \<and> sent run' = sent run @ [T2, T1]"
proof -
  from noex have ne: "\<And>t. \<not> excluded ex t"
    by (auto simp: excluded_def)
  from nocancel have nc: "\<And>k. \<not> cancelled k"
    by simp
  have "runLoop cancelled send ex k ([] @ [A]) run =
        runLoop cancelled send ex (Suc k) ([] @ children A) run"
    by (rule runLoop_root [where cancelled = cancelled and k = k and t = A, OF nc ne A(1)])
  then have step0: "runLoop cancelled send ex k [A] run =
                    runLoop cancelled send ex (Suc k) ([T1] @ [T2]) run"
    by (simp add: A(2))
  from replies obtain r2 where r2: "send (length (sent run)) (item_id T2) = Response r2"
    by blast
  from runLoop_leaf [where cancelled = cancelled and k = "Suc k" and q = "[T1]"
      and send = send and ex = ex and t = T2 and run = run and r = r2,
      OF nc ne T2 r2]
  obtain run1 where step1: "runLoop cancelled send ex (Suc k) ([T1] @ [T2]) run =
                            runLoop cancelled send ex (Suc (Suc k)) ([] @ [T1]) run1"
    and sent1: "sent run1 = sent run @ [T2]"
    by auto
  from replies obtain r1 where r1: "send (length (sent run1)) (item_id T1) = Response r1"
    by blast
  from runLoop_leaf [where cancelled = cancelled and k = "Suc (Suc k)" and q = "[]"
      and send = send and ex = ex and t = T1 and run = run1 and r = r1,
      OF nc ne T1 r1]
  obtain run2 where step2: "runLoop cancelled send ex (Suc (Suc k)) ([] @ [T1]) run1 =
                            runLoop cancelled send ex (Suc (Suc (Suc k))) [] run2"
    and sent2: "sent run2 = sent run1 @ [T1]"
    by auto
  have "runLoop cancelled send ex k [A] run = (Returns (), run2)"
    by (simp only: step0 step1 step2 runLoop_empty)
  moreover have "sent run2 = sent run @ [T2, T1]"
    by (simp add: sent1 sent2)
  ultimately show ?thesis by blast
qed

text \<open>
  Claim C4. When the initial queue holds the single package \<open>A\<close> whose children
  are the leaves \<open>T1\<close> and \<open>T2\<close>, in that order, nothing is excluded, the run is
  never cancelled and the server answers every request, the run ends and the run
  requests were sent for \<open>T2\<close> first and for \<open>T1\<close> second.
\<close>

theorem C4_stack_order:
  assumes queue: "initialQueue ctrl req = [A]"
    and A: "parent A = None" "children A = [T1, T2]"
    and T1: "parent T1 \<noteq> None" "children T1 = []"
    and T2: "parent T2 \<noteq> None" "children T2 = []"
    and noex: "request_exclude req = None \<or> request_exclude req = Some []"
    and nocancel: "\<forall>k. \<not> cancelled k"
    and replies: "\<forall>n i. \<exists>r. send n i = Response r"
  shows "fst (runTest ctrl cancelled send req) = Returns ()
       \<and> sent (snd (runTest ctrl cancelled send req)) = [T2, T1]"
proof -
  from runLoop_package_of_two [OF A T1 T2 noex nocancel replies, of 0
      "\<lparr> sent = [], passed = [], failed = [], ended = False \<rparr>"]
  obtain run' where "runLoop cancelled send (request_exclude req) 0 [A]
        \<lparr> sent = [], passed = [], failed = [], ended = False \<rparr> = (Returns (), run')"
    and "sent run' = [T2, T1]"
    by auto
  then show ?thesis
    by (simp add: runTest_def queue)
qed

lemma example_items:
  "parent pkgA = None" "children pkgA = [testT1, testT2]"
  "parent testT1 \<noteq> None" "children testT1 = []"
  "parent testT2 \<noteq> None" "children testT2 = []"
  by (simp_all add: pkgA_def testT1_def testT2_def)

theorem C4_stack_order_witness:
  "initialQueue example_controller run_all = [pkgA]
   \<and> parent pkgA = None \<and> children pkgA = [testT1, testT2]
   \<and> parent testT1 \<noteq> None \<and> children testT1 = []
   \<and> parent testT2 \<noteq> None \<and> children testT2 = []
   \<and> request_exclude run_all = None
   \<and> (\<forall>k. \<not> never_cancelled k)
   \<and> (\<forall>n i. \<exists>r. passing_server n i = Response r)
   \<and> fst (runTest example_controller never_cancelled passing_server run_all) = Returns ()
   \<and> sent (snd (runTest example_controller never_cancelled passing_server run_all))
       = [testT2, testT1]"
proof -
  have queue: "initialQueue example_controller run_all = [pkgA]"
    by (simp add: initialQueue_def run_all_def example_controller_def)
  have noex: "request_exclude run_all = None \<or> request_exclude run_all = Some []"
    by (simp add: run_all_def)
  have nocancel: "\<forall>k. \<not> never_cancelled k"
    by (simp add: never_cancelled_def)
  have replies: "\<forall>n i. \<exists>r. passing_server n i = Response r"
    by (simp add: passing_server_def)
  have none: "request_exclude run_all = None"
    by (simp add: run_all_def)
  have "fst (runTest example_controller never_cancelled passing_server run_all) = Returns ()
      \<and> sent (snd (runTest example_controller never_cancelled passing_server run_all))
          = [testT2, testT1]"
    by (rule C4_stack_order [OF queue example_items noex nocancel replies])
  with queue example_items none nocancel replies show ?thesis
    by blast
qed


lemma runTest_sent:
  "sent (snd (runTest ctrl cancelled send req)) =
   sent (snd (runLoop cancelled send (request_exclude req) 0 (initialQueue ctrl req)
                \<lparr> sent = [], passed = [], failed = [], ended = False \<rparr>))"
  by (simp add: runTest_def Let_def split: prod.split settled.split)

lemma example_run_all:
  "sent (snd (runTest example_controller never_cancelled passing_server run_all))
     = [testT2, testT1]"
proof -
  have "\<exists>run'. runLoop never_cancelled passing_server None 0 [pkgA]
            \<lparr> sent = [], passed = [], failed = [], ended = False \<rparr> = (Returns (), run')
          \<and> sent run' = sent \<lparr> sent = [], passed = [], failed = [], ended = False \<rparr>
                @ [testT2, testT1]"
    by (rule runLoop_package_of_two [OF example_items])
       (simp_all add: never_cancelled_def passing_server_def)
  then show ?thesis
    by (auto simp: runTest_sent run_all_def initialQueue_def example_controller_def)
qed

text \<open>
  Claim C8. In every run, whatever is included, excluded, cancelled or answered, a
  run request is sent only for items that have a parent; and an item without a
  parent that is taken from the queue (and is not excluded) is only expanded: the
  loop goes on with its children pushed onto the queue and with no request sent.
\<close>

theorem C8_requests_only_for_children:
  "(\<forall>t \<in> set (sent (snd (runTest ctrl cancelled send req))). parent t \<noteq> None)
   \<and> (\<not> cancelled k \<and> \<not> excluded ex t \<and> parent t = None \<longrightarrow>
        runLoop cancelled send ex k (q @ [t]) run =
        runLoop cancelled send ex (Suc k) (q @ children t) run)"
proof
  show "\<forall>t \<in> set (sent (snd (runTest ctrl cancelled send req))). parent t \<noteq> None"
    unfolding runTest_sent by (rule runLoop_sent_parent) simp
  show "\<not> cancelled k \<and> \<not> excluded ex t \<and> parent t = None \<longrightarrow>
        runLoop cancelled send ex k (q @ [t]) run =
        runLoop cancelled send ex (Suc k) (q @ children t) run"
    by (simp add: runLoop_root)
qed

theorem C8_requests_only_for_children_witness:
  "testT2 \<in> set (sent (snd (runTest example_controller never_cancelled passing_server run_all)))
   \<and> parent testT2 \<noteq> None
   \<and> \<not> never_cancelled 0 \<and> \<not> excluded None pkgA \<and> parent pkgA = None
   \<and> runLoop never_cancelled passing_server None 0 ([] @ [pkgA]) new_run =
       runLoop never_cancelled passing_server None (Suc 0) ([] @ children pkgA) new_run"
proof -
  have member: "testT2 \<in> set (sent (snd (runTest example_controller never_cancelled
                   passing_server run_all)))"
    by (simp add: example_run_all)
  have root: "\<not> never_cancelled 0 \<and> \<not> excluded None pkgA \<and> parent pkgA = None"
    by (simp add: never_cancelled_def excluded_def example_items)
  note claim = C8_requests_only_for_children
    [of example_controller never_cancelled passing_server run_all 0 None pkgA "[]" new_run]
  from claim member have "parent testT2 \<noteq> None"
    by blast
  moreover from claim root have
    "runLoop never_cancelled passing_server None 0 ([] @ [pkgA]) new_run =
     runLoop never_cancelled passing_server None (Suc 0) ([] @ children pkgA) new_run"
    by blast
  ultimately show ?thesis
    using member root by blast
qed

lemma visible_not_excluded: "t \<in> set (visible ex r) \<Longrightarrow> \<not> excluded ex t"
proof (induction ex r rule: visible.induct)
  case (1 ex r i l u rg p cs)
  then show ?case
    by (auto split: if_splits)
qed

lemma runLoop_loopBody:
  "runLoop cancelled send ex k queue run =
     (case loopBody cancelled send ex (k, queue, run) of
        Inl outcome \<Rightarrow> outcome
      | Inr (k', queue', run') \<Rightarrow> runLoop cancelled send ex k' queue' run')"
  by (subst runLoop.simps) (simp add: loopBody_def Let_def split: reply.splits)


lemma set_descendants:
  "set (descendants t) = (\<Union>c \<in> set (children t). set (subtree c))"
  by (cases t) (auto simp: subtree_def)

lemma self_in_subtree: "t \<in> set (subtree t)"
  by (simp add: subtree_def)

lemma descendants_in_subtree: "set (descendants t) \<subseteq> set (subtree t)"
  by (auto simp: subtree_def)

lemma subtree_descendants:
  "i \<in> set (subtree r) \<Longrightarrow> set (descendants i) \<subseteq> set (descendants r)"
proof (induction r rule: descendants.induct)
  case (1 r' i' l u rg p cs)
  show ?case
  proof (cases "i = TestItem r' i' l u rg p cs")
    case True
    then show ?thesis by simp
  next
    case False
    with "1.prems" obtain c where c: "c \<in> set cs" "i \<in> set (subtree c)"
      by (auto simp: subtree_def)
    from "1.IH" [OF c] have "set (descendants i) \<subseteq> set (descendants c)" .
    with c(1) show ?thesis
      by (auto simp: subtree_def)
  qed
qed

lemma child_descendant:
  "p \<in> set (subtree r) \<Longrightarrow> c \<in> set (children p) \<Longrightarrow> c \<in> set (descendants r)"
  using subtree_descendants [of p r] set_descendants [of p] self_in_subtree [of c]
  by blast

lemma visible_subtree: "set (visible ex r) \<subseteq> set (subtree r)"
proof (induction ex r rule: visible.induct)
  case (1 ex r i l u rg p cs)
  then show ?case
    by (auto simp: subtree_def split: if_splits)
qed

lemma visible_child:
  "p \<in> set (visible ex r) \<Longrightarrow> c \<in> set (children p) \<Longrightarrow> \<not> excluded ex c
   \<Longrightarrow> c \<in> set (visible ex r)"
proof (induction ex r rule: visible.induct)
  case (1 ex r i l u rg pa cs)
  let ?r = "TestItem r i l u rg pa cs"
  from "1.prems"(1) have notex: "\<not> excluded ex ?r"
    by (auto split: if_splits)
  show ?case
  proof (cases "p = ?r")
    case True
    with "1.prems"(2) have "c \<in> set cs" by simp
    moreover from "1.prems"(3) have "c \<in> set (visible ex c)"
      by (subst visible_unfold) simp
    ultimately show ?thesis using notex by auto
  next
    case False
    with "1.prems"(1) notex obtain c' where c': "c' \<in> set cs" "p \<in> set (visible ex c')"
      by auto
    from "1.IH" [OF notex c' "1.prems"(2,3)] c'(1) notex show ?thesis
      by auto
  qed
qed

lemma forest_refs_disjoint:
  assumes "distinct (map item_ref (forest roots))"
    and "a \<in> set roots" "b \<in> set roots" "a \<noteq> b"
    and "x \<in> set (subtree a)" "y \<in> set (subtree b)"
  shows "item_ref x \<noteq> item_ref y"
  using assms
proof (induction roots)
  case Nil
  then show ?case by simp
next
  case (Cons r roots)
  have sub: "\<And>t z. t \<in> set roots \<Longrightarrow> z \<in> set (subtree t) \<Longrightarrow> z \<in> set (forest roots)"
    by (auto simp: forest_def)
  from Cons.prems(1) have d: "distinct (map item_ref (forest roots))"
    and disj: "item_ref ` set (subtree r) \<inter> item_ref ` set (forest roots) = {}"
    by (auto simp: forest_def)
  consider "a = r" "b \<in> set roots" | "b = r" "a \<in> set roots"
    | "a \<in> set roots" "b \<in> set roots"
    using Cons.prems(2-4) by auto
  then show ?case
  proof cases
    case 1
    with Cons.prems(5,6) sub [of b y] disj show ?thesis by blast
  next
    case 2
    with Cons.prems(5,6) sub [of a x] disj show ?thesis by blast
  next
    case 3
    from Cons.IH [OF d 3 Cons.prems(4-6)] show ?thesis .
  qed
qed

lemma forest_root_ref_fresh:
  assumes "distinct (map item_ref (forest roots))" and "a \<in> set roots"
    and "y \<in> set (descendants a)"
  shows "item_ref y \<noteq> item_ref a"
  using assms
proof (induction roots)
  case Nil
  then show ?case by simp
next
  case (Cons r roots)
  from Cons.prems(1) have d: "distinct (map item_ref (forest roots))"
    and here: "distinct (map item_ref (subtree r))"
    by (auto simp: forest_def)
  show ?case
  proof (cases "a = r")
    case True
    from here have "item_ref r \<notin> item_ref ` set (descendants r)"
      by (simp add: subtree_def)
    with True Cons.prems(3) show ?thesis
      by (metis imageI)
  next
    case False
    with Cons.prems(2) have "a \<in> set roots" by simp
    from Cons.IH [OF d this Cons.prems(3)] show ?thesis .
  qed
qed


lemma forest_root_not_descendant:
  assumes wf: "distinct (map item_ref (forest roots))"
    and a: "a \<in> set roots" and r: "r \<in> set roots"
    and y: "y \<in> set (descendants r)"
  shows "item_ref y \<noteq> item_ref a"
proof (cases "r = a")
  case True
  with forest_root_ref_fresh [OF wf r y] show ?thesis by simp
next
  case False
  from y have "y \<in> set (subtree r)"
    using descendants_in_subtree by blast
  from forest_refs_disjoint [OF wf r a False this self_in_subtree] show ?thesis .
qed

lemma loopBody_next:
  assumes "loopBody cancelled send ex (k, queue, run) = Inr (k', queue', run')"
  shows "\<exists>q t. queue = q @ [t]
            \<and> set queue' \<subseteq> set q \<union> (if excluded ex t then {} else set (children t))
            \<and> set (sent run') \<subseteq> set (sent run) \<union> (if excluded ex t then {} else {t})"
proof -
  from assms have "queue \<noteq> []"
    by (auto simp: loopBody_def split: if_splits)
  then obtain q t where queue: "queue = q @ [t]"
    by (metis append_butlast_last_id)
  from assms have
    "set queue' \<subseteq> set q \<union> (if excluded ex t then {} else set (children t))
     \<and> set (sent run') \<subseteq> set (sent run) \<union> (if excluded ex t then {} else {t})"
    unfolding loopBody_def queue
    by (auto simp: Let_def split: if_splits reply.splits)
  with queue show ?thesis by blast
qed

lemma visits_invariant:
  assumes "visits cancelled send ex (k0, queue0, run0) state"
  shows "set (fst (snd state))
           \<subseteq> set queue0 \<union> (\<Union>r \<in> set queue0. \<Union>p \<in> set (visible ex r). set (children p))
       \<and> set (sent (snd (snd state)))
           \<subseteq> set (sent run0) \<union> (\<Union>r \<in> set queue0. set (visible ex r))"
  using assms
proof (induction rule: visits.induct)
  case visits_start
  then show ?case by auto
next
  case (visits_next state state')
  obtain k queue run where state: "state = (k, queue, run)"
    by (cases state) auto
  obtain k' queue' run' where state': "state' = (k', queue', run')"
    by (cases state') auto
  from visits_next.hyps(2) [unfolded state state'] loopBody_next
  obtain q t where queue: "queue = q @ [t]"
    and grow: "set queue' \<subseteq> set q \<union> (if excluded ex t then {} else set (children t))"
    and sends: "set (sent run') \<subseteq> set (sent run) \<union> (if excluded ex t then {} else {t})"
    by blast
  from visits_next.IH have inv_q: "set queue
           \<subseteq> set queue0 \<union> (\<Union>r \<in> set queue0. \<Union>p \<in> set (visible ex r). set (children p))"
    and inv_s: "set (sent run) \<subseteq> set (sent run0) \<union> (\<Union>r \<in> set queue0. set (visible ex r))"
    by (simp_all add: state)
  have vis: "t \<in> (\<Union>r \<in> set queue0. set (visible ex r))" if notex: "\<not> excluded ex t"
  proof -
    from inv_q queue consider "t \<in> set queue0"
      | r p where "r \<in> set queue0" "p \<in> set (visible ex r)" "t \<in> set (children p)"
      by auto
    then show ?thesis
    proof cases
      case 1
      moreover from notex have "t \<in> set (visible ex t)"
        by (subst visible_unfold) simp
      ultimately show ?thesis by blast
    next
      case 2
      from visible_child [OF 2(2,3) notex] 2(1) show ?thesis by blast
    qed
  qed
  have "set queue'
           \<subseteq> set queue0 \<union> (\<Union>r \<in> set queue0. \<Union>p \<in> set (visible ex r). set (children p))"
  proof (cases "excluded ex t")
    case True
    with grow inv_q queue show ?thesis by auto
  next
    case False
    from vis [OF False] have "set (children t)
        \<subseteq> (\<Union>r \<in> set queue0. \<Union>p \<in> set (visible ex r). set (children p))"
      by blast
    with False grow inv_q queue show ?thesis by auto
  qed
  moreover have "set (sent run') \<subseteq> set (sent run0) \<union> (\<Union>r \<in> set queue0. set (visible ex r))"
  proof (cases "excluded ex t")
    case True
    with sends inv_s show ?thesis by auto
  next
    case False
    with vis [OF False] sends inv_s show ?thesis by auto
  qed
  ultimately show ?case
    by (simp add: state')
qed

lemma excluded_root_needs_run_all:
  assumes wf: "distinct (map item_ref (forest (items ctrl)))"
    and host: "host_filtered ctrl req"
    and root: "A \<in> set (items ctrl)"
    and excl: "excluded (request_exclude req) A"
  shows "request_include req = None"
proof (rule ccontr)
  assume "request_include req \<noteq> None"
  then obtain inc where inc: "request_include req = Some inc"
    by auto
  from excl obtain exl e where exl: "request_exclude req = Some exl"
    and e: "e \<in> set exl" "item_ref e = item_ref A"
    by (auto simp: excluded_def list_ex_iff split: option.splits)
  from host inc exl e(1) obtain i where i: "i \<in> set inc"
    "item_ref e \<in> item_ref ` set (descendants i)" "i \<in> set (forest (items ctrl))"
    by (auto simp: host_filtered_def list_all_iff list_ex_iff)
  from i(2) obtain y where y: "y \<in> set (descendants i)" "item_ref y = item_ref e"
    by auto
  from i(3) obtain r where r: "r \<in> set (items ctrl)" "i \<in> set (subtree r)"
    by (auto simp: forest_def)
  from subtree_descendants [OF r(2)] y(1) have "y \<in> set (descendants r)"
    by blast
  from forest_root_not_descendant [OF wf root r(1) this] y(2) e(2) show False
    by simp
qed

lemma excluded_root_subtree_unreached:
  assumes wf: "distinct (map item_ref (forest roots))"
    and root: "A \<in> set roots"
    and excl: "excluded ex A"
    and desc: "d \<in> set (descendants A)"
  shows "x \<in> set roots
            \<union> (\<Union>r \<in> set roots. \<Union>p \<in> set (visible ex r). set (children p))
          \<Longrightarrow> item_ref x \<noteq> item_ref d"
    and "x \<in> (\<Union>r \<in> set roots. set (visible ex r)) \<Longrightarrow> item_ref x \<noteq> item_ref d"
proof -
  from desc have dA: "d \<in> set (subtree A)"
    using descendants_in_subtree by blast
  have other: "item_ref y \<noteq> item_ref d"
    if "r \<in> set roots" "p \<in> set (visible ex r)" "y \<in> set (subtree r)" for r p y
  proof -
    from that(2) excl have "r \<noteq> A"
      by (auto simp: visible_unfold)
    from forest_refs_disjoint [OF wf that(1) root this that(3) dA] show ?thesis .
  qed
  show "item_ref x \<noteq> item_ref d"
    if "x \<in> set roots
          \<union> (\<Union>r \<in> set roots. \<Union>p \<in> set (visible ex r). set (children p))"
  proof -
    from that consider "x \<in> set roots"
      | r p where "r \<in> set roots" "p \<in> set (visible ex r)" "x \<in> set (children p)"
      by auto
    then show ?thesis
    proof cases
      case 1
      from forest_root_not_descendant [OF wf 1 root desc] show ?thesis by simp
    next
      case 2
      from 2(2) have "p \<in> set (subtree r)"
        using visible_subtree by blast
      from child_descendant [OF this 2(3)] have "x \<in> set (subtree r)"
        using descendants_in_subtree by blast
      from other [OF 2(1,2) this] show ?thesis .
    qed
  qed
  show "item_ref x \<noteq> item_ref d" if "x \<in> (\<Union>r \<in> set roots. set (visible ex r))"
  proof -
    from that obtain r where r: "r \<in> set roots" "x \<in> set (visible ex r)"
      by auto
    from r(2) have "x \<in> set (subtree r)"
      using visible_subtree by blast
    from other [OF r this] show ?thesis .
  qed
qed

text \<open>
  Claim C10. An excluded item that is taken from the queue is skipped before its
  children are pushed. So, for a request as the editor passes it to the run handler
  and a tree whose items are distinct objects, no descendant of an excluded package
  (an excluded root item of the controller) is ever enqueued or executed: none is in
  the queue at any state the loop passes through, and none is the subject of a run
  request, there or when the run has ended.
\<close>

theorem C10_excluded_package_subtree:
  assumes wf: "distinct (map item_ref (forest (items ctrl)))"
    and host: "host_filtered ctrl req"
    and root: "A \<in> set (items ctrl)"
    and excl: "excluded (request_exclude req) A"
    and desc: "d \<in> set (descendants A)"
  shows "(\<not> cancelled k \<and> excluded ex t \<longrightarrow>
            runLoop cancelled send ex k (q @ [t]) run =
            runLoop cancelled send ex (Suc k) q run)
       \<and> (\<forall>k' queue run'.
            visits cancelled send (request_exclude req)
              (0, initialQueue ctrl req, new_run) (k', queue, run') \<longrightarrow>
            item_ref d \<notin> item_ref ` set queue \<and> item_ref d \<notin> item_ref ` set (sent run'))
       \<and> item_ref d \<notin> item_ref ` set (sent (snd (runTest ctrl cancelled send req)))"
proof -
  have skip: "\<not> cancelled k \<and> excluded ex t \<longrightarrow>
            runLoop cancelled send ex k (q @ [t]) run =
            runLoop cancelled send ex (Suc k) q run"
    by (simp add: runLoop_excluded)
  from excluded_root_needs_run_all [OF wf host root excl]
  have queue0: "initialQueue ctrl req = items ctrl"
    by (simp add: initialQueue_def)
  note unreached = excluded_root_subtree_unreached [OF wf root excl desc]
  have states: "item_ref d \<notin> item_ref ` set queue \<and> item_ref d \<notin> item_ref ` set (sent run')"
    if "visits cancelled send (request_exclude req)
          (0, initialQueue ctrl req, new_run) (k', queue, run')" for k' queue run'
  proof -
    from visits_invariant [OF that [unfolded queue0]]
    have sub_q: "set queue \<subseteq> set (items ctrl)
            \<union> (\<Union>r \<in> set (items ctrl).
                 \<Union>p \<in> set (visible (request_exclude req) r). set (children p))"
      and sub_s: "set (sent run')
            \<subseteq> (\<Union>r \<in> set (items ctrl). set (visible (request_exclude req) r))"
      by (simp_all add: new_run_def)
    have "item_ref d \<notin> item_ref ` set queue"
    proof
      assume "item_ref d \<in> item_ref ` set queue"
      then obtain x where x: "x \<in> set queue" "item_ref x = item_ref d"
        by auto
      from unreached(1) [OF subsetD [OF sub_q x(1)]] x(2) show False
        by simp
    qed
    moreover have "item_ref d \<notin> item_ref ` set (sent run')"
    proof
      assume "item_ref d \<in> item_ref ` set (sent run')"
      then obtain x where x: "x \<in> set (sent run')" "item_ref x = item_ref d"
        by auto
      from unreached(2) [OF subsetD [OF sub_s x(1)]] x(2) show False
        by simp
    qed
    ultimately show ?thesis ..
  qed
  have sub: "set (sent (snd (runTest ctrl cancelled send req)))
          \<subseteq> (\<Union>r \<in> set (items ctrl). set (visible (request_exclude req) r))"
    unfolding runTest_sent queue0
    using runLoop_sent_visible [of cancelled send "request_exclude req" 0 "items ctrl"
        "\<lparr> sent = [], passed = [], failed = [], ended = False \<rparr>"]
    by simp
  have final: "item_ref d \<notin> item_ref ` set (sent (snd (runTest ctrl cancelled send req)))"
  proof
    assume "item_ref d \<in> item_ref ` set (sent (snd (runTest ctrl cancelled send req)))"
    then obtain x where x: "x \<in> set (sent (snd (runTest ctrl cancelled send req)))"
      "item_ref x = item_ref d"
      by auto
    from unreached(2) [OF subsetD [OF sub x(1)]] x(2) show False
      by simp
  qed
  from states have "\<forall>k' queue run'.
            visits cancelled send (request_exclude req)
              (0, initialQueue ctrl req, new_run) (k', queue, run') \<longrightarrow>
            item_ref d \<notin> item_ref ` set queue \<and> item_ref d \<notin> item_ref ` set (sent run')"
    by (intro allI impI)
  with skip final show ?thesis
    by (intro conjI)
qed

theorem C10_excluded_package_subtree_witness:
  "distinct (map item_ref (forest (items example_controller)))
   \<and> host_filtered example_controller run_all_without_A
   \<and> pkgA \<in> set (items example_controller)
   \<and> excluded (request_exclude run_all_without_A) pkgA
   \<and> testT1 \<in> set (descendants pkgA)
   \<and> \<not> never_cancelled 0
   \<and> runLoop never_cancelled passing_server (Some [pkgA]) 0 ([] @ [pkgA]) new_run =
       runLoop never_cancelled passing_server (Some [pkgA]) (Suc 0) [] new_run
   \<and> visits never_cancelled passing_server (request_exclude run_all_without_A)
       (0, initialQueue example_controller run_all_without_A, new_run)
       (Suc 0, [], new_run)
   \<and> item_ref testT1 \<notin> item_ref ` set (initialQueue example_controller run_all_without_A)
   \<and> item_ref testT1 \<notin> item_ref ` set
         (sent (snd (runTest example_controller never_cancelled passing_server
                       run_all_without_A)))"
proof -
  have wf: "distinct (map item_ref (forest (items example_controller)))"
    by (simp add: example_controller_def forest_def subtree_def pkgA_def testT1_def testT2_def)
  have host: "host_filtered example_controller run_all_without_A"
    by (simp add: host_filtered_def run_all_without_A_def)
  have root: "pkgA \<in> set (items example_controller)"
    by (simp add: example_controller_def)
  have excl: "excluded (request_exclude run_all_without_A) pkgA"
    by (simp add: run_all_without_A_def excluded_def)
  have desc: "testT1 \<in> set (descendants pkgA)"
    by (simp add: pkgA_def)
  have nc: "\<not> never_cancelled 0"
    by (simp add: never_cancelled_def)
  have exa: "excluded (Some [pkgA]) pkgA"
    by (simp add: excluded_def)
  have start: "visits never_cancelled passing_server (request_exclude run_all_without_A)
       (0, initialQueue example_controller run_all_without_A, new_run)
       (0, initialQueue example_controller run_all_without_A, new_run)"
    by (rule visits_start)
  have "loopBody never_cancelled passing_server (request_exclude run_all_without_A)
          (0, initialQueue example_controller run_all_without_A, new_run) =
        Inr (Suc 0, [], new_run)"
    by (simp add: loopBody_def initialQueue_def run_all_without_A_def example_controller_def
        never_cancelled_def excluded_def)
  with start have visited: "visits never_cancelled passing_server
       (request_exclude run_all_without_A)
       (0, initialQueue example_controller run_all_without_A, new_run)
       (Suc 0, [], new_run)"
    by (rule visits_next)
  note claim = C10_excluded_package_subtree [OF wf host root excl desc,
      of never_cancelled 0 "Some [pkgA]" pkgA passing_server "[]" new_run]
  from claim nc exa have
    "runLoop never_cancelled passing_server (Some [pkgA]) 0 ([] @ [pkgA]) new_run =
     runLoop never_cancelled passing_server (Some [pkgA]) (Suc 0) [] new_run"
    by blast
  moreover from claim start have
    "item_ref testT1 \<notin> item_ref ` set (initialQueue example_controller run_all_without_A)"
    by blast
  moreover from claim have
    "item_ref testT1 \<notin> item_ref ` set
         (sent (snd (runTest example_controller never_cancelled passing_server
                       run_all_without_A)))"
    by blast
  ultimately show ?thesis
    using wf host root excl desc nc visited by blast
qed

section \<open>Properties of the test tree update\<close>

lemma collection_add_fresh:
  "item_id item \<notin> item_id ` set xs \<Longrightarrow> collection_add item xs = xs @ [item]"
  by (induction xs) auto

lemma new_items_ids: "map item_id (new_items parse p r ts) = map test_id ts"
  by (induction ts arbitrary: r) auto

lemma forEach_addTest_parsed:
  assumes "distinct (map test_id ts)"
    and "test_id ` set ts \<inter> item_id ` set (children pkg) = {}"
    and "\<forall>t \<in> set ts. parse (test_uri t) \<noteq> None"
  shows "forEach_addTest parse (pkg, ctrl) ts =
           (None,
            TestItem (item_ref pkg) (item_id pkg) (item_label pkg) (item_uri pkg)
              (item_range pkg) (parent pkg)
              (children pkg @ new_items parse (item_ref pkg) (next_ref ctrl) ts),
            ctrl\<lparr>next_ref := next_ref ctrl + length ts\<rparr>)"
  using assms
proof (induction ts arbitrary: pkg ctrl)
  case Nil
  then show ?case by (cases pkg) simp
next
  case (Cons t ts)
  from Cons.prems(3) obtain u where u: "parse (test_uri t) = Some u"
    by auto
  let ?item = "TestItem (next_ref ctrl) (test_id t) (test_label t) (Some u)
                 (Some (test_range t)) (Some (item_ref pkg)) []"
  let ?pkg = "TestItem (item_ref pkg) (item_id pkg) (item_label pkg) (item_uri pkg)
                (item_range pkg) (parent pkg) (children pkg @ [?item])"
  let ?ctrl = "ctrl\<lparr>next_ref := Suc (next_ref ctrl)\<rparr>"
  from Cons.prems have fresh: "item_id ?item \<notin> item_id ` set (children pkg)"
    by auto
  have step: "addTest parse (pkg, ctrl) t = Inr (?pkg, ?ctrl)"
    using collection_add_fresh [OF fresh]
    by (cases pkg) (simp add: addTest_def u createTestItem_def set_range_def children_add_def)
  from Cons.prems have "distinct (map test_id ts)"
    and "test_id ` set ts \<inter> item_id ` set (children ?pkg) = {}"
    and "\<forall>t \<in> set ts. parse (test_uri t) \<noteq> None"
    by auto
  from Cons.IH [OF this, of ?ctrl] step u show ?case
    by simp
qed

lemma collection_get_add:
  "collection_get (item_id item) (collection_add item xs) = Some item"
  by (induction xs) (auto simp: collection_get_def)

lemma collection_add_others:
  "filter (\<lambda>x. item_id x \<noteq> item_id item) (collection_add item xs) =
   filter (\<lambda>x. item_id x \<noteq> item_id item) xs"
  by (induction xs) auto

lemma collection_add_same:
  "distinct (map item_id xs) \<Longrightarrow>
   filter (\<lambda>x. item_id x = item_id item) (collection_add item xs) = [item]"
proof (induction xs)
  case Nil
  then show ?case by simp
next
  case (Cons x xs)
  show ?case
  proof (cases "item_id x = item_id item")
    case True
    with Cons.prems have "item_id item \<notin> item_id ` set xs"
      by simp
    then have "\<forall>y \<in> set xs. item_id y \<noteq> item_id item"
      by (metis imageI)
    then have "filter (\<lambda>y. item_id y = item_id item) xs = []"
      by (simp add: filter_empty_conv)
    with True show ?thesis by simp
  next
    case False
    with Cons show ?thesis by simp
  qed
qed

lemma createTests_with_tests:
  assumes "tests testData = Some ts" and "distinct (map test_id ts)"
    and "\<forall>t \<in> set ts. parse (test_uri t) \<noteq> None"
  shows "createTests parse testData ctrl =
           (None,
            ctrl\<lparr>next_ref := Suc (next_ref ctrl) + length ts,
                 items := collection_add
                   (TestItem (next_ref ctrl) (tests_package testData) (tests_package testData)
                      None None None (new_items parse (next_ref ctrl) (Suc (next_ref ctrl)) ts))
                   (items ctrl)\<rparr>)"
proof -
  have "forEach_addTest parse
          (TestItem (next_ref ctrl) (tests_package testData) (tests_package testData)
             None None None [],
           ctrl\<lparr>next_ref := Suc (next_ref ctrl)\<rparr>) ts =
        (None,
         TestItem (next_ref ctrl) (tests_package testData) (tests_package testData)
           None None None (new_items parse (next_ref ctrl) (Suc (next_ref ctrl)) ts),
         ctrl\<lparr>next_ref := Suc (next_ref ctrl) + length ts\<rparr>)"
    using forEach_addTest_parsed [OF assms(2) _ assms(3), of
        "TestItem (next_ref ctrl) (tests_package testData) (tests_package testData)
           None None None []"
        "ctrl\<lparr>next_ref := Suc (next_ref ctrl)\<rparr>"]
    by simp
  then show ?thesis
    by (simp add: createTests_def createTestItem_def assms(1))
qed

text \<open>
  What \<open>#updateTests\<close> does for a notification that carries a list of tests with
  distinct ids and with uris that \<open>Uri.parse\<close> accepts: the package item is built anew with exactly one child per test of
  the list, in the order of the list, and takes the place of the item that had the
  id of the package; the other packages stay as they were.
\<close>

theorem updateTests_replaces_package:
  assumes ctrl: "testController client = Some ctrl"
    and snapshot: "tests testData = Some ts"
    and uniq: "distinct (map test_id ts)"
    and uris: "\<forall>t \<in> set ts. parse (test_uri t) \<noteq> None"
  shows "\<exists>client' ctrl' pkg.
           updateTests parse testData client = (None, client')
         \<and> testController client' = Some ctrl'
         \<and> collection_get (tests_package testData) (items ctrl') = Some pkg
         \<and> item_id pkg = tests_package testData
         \<and> parent pkg = None
         \<and> children pkg = new_items parse (item_ref pkg) (Suc (item_ref pkg)) ts
         \<and> map item_id (children pkg) = map test_id ts
         \<and> filter (\<lambda>x. item_id x \<noteq> tests_package testData) (items ctrl') =
             filter (\<lambda>x. item_id x \<noteq> tests_package testData) (items ctrl)
         \<and> (distinct (map item_id (items ctrl)) \<longrightarrow>
              filter (\<lambda>x. item_id x = tests_package testData) (items ctrl') = [pkg])"
proof -
  define ctrl1 where "ctrl1 =
    (if invalidateTestResults ctrl
     then ctrl\<lparr>invalidated := invalidated ctrl
                 @ [collection_get (tests_package testData) (items ctrl)]\<rparr>
     else ctrl)"
  define pkg where "pkg =
    TestItem (next_ref ctrl1) (tests_package testData) (tests_package testData)
      None None None (new_items parse (next_ref ctrl1) (Suc (next_ref ctrl1)) ts)"
  define ctrl' where "ctrl' =
    ctrl1\<lparr>next_ref := Suc (next_ref ctrl1) + length ts,
          items := collection_add pkg (items ctrl1)\<rparr>"
  have items1: "items ctrl1 = items ctrl"
    by (simp add: ctrl1_def)
  have id: "item_id pkg = tests_package testData"
    by (simp add: pkg_def)
  have "createTests parse testData ctrl1 = (None, ctrl')"
    unfolding ctrl'_def pkg_def by (rule createTests_with_tests [OF snapshot uniq uris])
  then have run: "updateTests parse testData client =
      (None, client\<lparr>testController := Some ctrl'\<rparr>)"
    by (simp add: updateTests_def ctrl ctrl1_def Let_def)
  have items': "items ctrl' = collection_add pkg (items ctrl)"
    by (simp add: ctrl'_def items1)
  have get: "collection_get (tests_package testData) (items ctrl') = Some pkg"
    unfolding items' using collection_get_add [of pkg "items ctrl"] by (simp add: id)
  have kids: "children pkg = new_items parse (item_ref pkg) (Suc (item_ref pkg)) ts"
    by (simp add: pkg_def)
  have ids: "map item_id (children pkg) = map test_id ts"
    by (simp add: kids new_items_ids)
  have others: "filter (\<lambda>x. item_id x \<noteq> tests_package testData) (items ctrl') =
                filter (\<lambda>x. item_id x \<noteq> tests_package testData) (items ctrl)"
    unfolding items' using collection_add_others [of pkg "items ctrl"] by (simp add: id)
  have same: "distinct (map item_id (items ctrl)) \<longrightarrow>
              filter (\<lambda>x. item_id x = tests_package testData) (items ctrl') = [pkg]"
    unfolding items' using collection_add_same [of "items ctrl" pkg] by (simp add: id)
  have "parent pkg = None"
    by (simp add: pkg_def)
  with run get id kids ids others same show ?thesis
    by (intro exI [of _ "client\<lparr>testController := Some ctrl'\<rparr>"] exI [of _ ctrl']
        exI [of _ pkg]) simp
qed

text \<open>
  When \<open>Uri.parse\<close> throws on the uri of a test of the list, the error leaves
  \<open>#createTests\<close> before \<^verbatim>\<open>items.add(pkg)\<close>: the items of the controller stay as
  they were.
\<close>

lemma forEach_addTest_items:
  "items (snd (snd (forEach_addTest parse (pkg, ctrl) ts))) = items ctrl"
proof (induction ts arbitrary: pkg ctrl)
  case Nil
  then show ?case by simp
next
  case (Cons t ts)
  show ?case
  proof (cases "parse (test_uri t)")
    case None
    then show ?thesis by (simp add: addTest_def)
  next
    case (Some u)
    then show ?thesis
      using Cons.IH by (simp add: addTest_def createTestItem_def)
  qed
qed

lemma forEach_addTest_rejected_uri:
  "t \<in> set ts \<Longrightarrow> parse (test_uri t) = None \<Longrightarrow>
   fst (forEach_addTest parse state ts) = Some UriError"
proof (induction ts arbitrary: state)
  case Nil
  then show ?case by simp
next
  case (Cons a ts)
  show ?case
  proof (cases "parse (test_uri a)")
    case None
    then show ?thesis by (cases state) (simp add: addTest_def)
  next
    case (Some u)
    with Cons.prems have "t \<in> set ts" by auto
    from Cons.IH [OF this Cons.prems(2)] Some show ?thesis
      by (cases state) (simp add: addTest_def createTestItem_def)
  qed
qed

lemma updateTests_rejected_uri:
  assumes "testController client = Some ctrl" and "tests testData = Some ts"
    and "t \<in> set ts" and "parse (test_uri t) = None"
  shows "\<exists>client' ctrl'. updateTests parse testData client = (Some UriError, client')
           \<and> testController client' = Some ctrl' \<and> items ctrl' = items ctrl"
proof -
  define ctrl1 where "ctrl1 =
    (if invalidateTestResults ctrl
     then ctrl\<lparr>invalidated := invalidated ctrl
                 @ [collection_get (tests_package testData) (items ctrl)]\<rparr>
     else ctrl)"
  define start where "start =
    (TestItem (next_ref ctrl1) (tests_package testData) (tests_package testData)
       None None None [], ctrl1\<lparr>next_ref := Suc (next_ref ctrl1)\<rparr>)"
  obtain err pkg' ctrl2 where loop: "forEach_addTest parse start ts = (err, pkg', ctrl2)"
    by (cases "forEach_addTest parse start ts") auto
  from forEach_addTest_rejected_uri
    [where parse = parse and t = t and ts = ts and state = start, OF assms(3,4)] loop
  have err: "err = Some UriError"
    by simp
  from forEach_addTest_items [of parse "fst start" "snd start" ts] loop
  have "items ctrl2 = items ctrl"
    by (simp add: start_def ctrl1_def)
  moreover have "updateTests parse testData client =
      (Some UriError, client\<lparr>testController := Some ctrl2\<rparr>)"
    using loop err
    by (simp add: updateTests_def createTests_def createTestItem_def assms(1,2) Let_def
        ctrl1_def [symmetric] start_def [symmetric])
  ultimately show ?thesis
    by simp
qed

lemma update_only_T1_drops_T2:
  "\<exists>client' ctrl' pkg.
       updateTests Some update_only_T1 example_client = (None, client')
     \<and> testController client' = Some ctrl'
     \<and> items ctrl' = [pkg]
     \<and> map item_id (children pkg) = [str ''T1'']"
proof -
  have ctrl: "testController example_client = Some example_controller"
    by (simp add: example_client_def)
  have snapshot: "tests update_only_T1 =
      Some [\<lparr> test_id = str ''T1'', test_label = str ''T1'',
               test_uri = str ''file:///proj/src/main.nr'',
               test_range = ((1, 0), (3, 1)) \<rparr>]"
    by (simp add: update_only_T1_def)
  have uniq: "distinct (map test_id
      [\<lparr> test_id = str ''T1'', test_label = str ''T1'',
          test_uri = str ''file:///proj/src/main.nr'',
          test_range = ((1, 0), (3, 1)) \<rparr>])"
    by simp
  have uris: "\<forall>t \<in> set
      [\<lparr> test_id = str ''T1'', test_label = str ''T1'',
          test_uri = str ''file:///proj/src/main.nr'',
          test_range = ((1, 0), (3, 1)) \<rparr>]. Some (test_uri t) \<noteq> None"
    by simp
  from updateTests_replaces_package [OF ctrl snapshot uniq uris]
  obtain client' ctrl' pkg where
    run: "updateTests Some update_only_T1 example_client = (None, client')"
      "testController client' = Some ctrl'"
    and ids0: "map item_id (children pkg) = map test_id
          [\<lparr> test_id = str ''T1'', test_label = str ''T1'',
              test_uri = str ''file:///proj/src/main.nr'',
              test_range = ((1, 0), (3, 1)) \<rparr>]"
    and others: "filter (\<lambda>x. item_id x \<noteq> tests_package update_only_T1) (items ctrl') =
           filter (\<lambda>x. item_id x \<noteq> tests_package update_only_T1) (items example_controller)"
    and same: "distinct (map item_id (items example_controller)) \<longrightarrow>
           filter (\<lambda>x. item_id x = tests_package update_only_T1) (items ctrl') = [pkg]"
    by blast
  from ids0 have ids: "map item_id (children pkg) = [str ''T1'']"
    by simp
  have "filter (\<lambda>x. item_id x \<noteq> tests_package update_only_T1) (items ctrl') = []"
    using others by (simp add: update_only_T1_def example_controller_def pkgA_def)
  then have "filter (\<lambda>x. item_id x = tests_package update_only_T1) (items ctrl') = items ctrl'"
    by (simp add: filter_empty_conv filter_id_conv)
  moreover have "filter (\<lambda>x. item_id x = tests_package update_only_T1) (items ctrl') = [pkg]"
    using same by (simp add: example_controller_def)
  ultimately have "items ctrl' = [pkg]"
    by simp
  with run ids show ?thesis
    by (intro exI [of _ client'] exI [of _ ctrl'] exI [of _ pkg]) simp
qed

text \<open>
  Claim C5 at a notification without \<open>tests\<close>, which the type \<open>NargoTests\<close>
  allows: \<open>#createTests\<close> throws a \<open>TypeError\<close> at \<^verbatim>\<open>testData.tests.forEach\<close>,
  before \<^verbatim>\<open>items.add(pkg)\<close>, and the package \<open>A\<close> keeps the tests \<open>T1\<close> and
  \<open>T2\<close> it had before the update.
\<close>

theorem C5_update_without_tests:
  "tests update_without_tests = None
   \<and> collection_get (tests_package update_without_tests) (items example_controller) = Some pkgA
   \<and> children pkgA = [testT1, testT2]
   \<and> updateTests parse update_without_tests example_client =
       (Some TypeError,
        \<lparr> testController = Some
            \<lparr> items = [pkgA], next_ref = 4, invalidateTestResults = True,
              invalidated = [Some pkgA] \<rparr> \<rparr>)"
  by (simp add: update_without_tests_def example_client_def example_controller_def
      updateTests_def createTests_def createTestItem_def collection_get_def Let_def
      pkgA_def testT1_def testT2_def)

end
